theory Spec2Isabelle
  imports Main "HOL-Library.Sublist"
begin

section \<open>Strings of the host language\<close>

text \<open>
  Header names and values are byte strings (the Fetch standard stores them so), hence
  \<^typ>\<open>string\<close> with one \<^typ>\<open>char\<close> per code unit below 256. The string methods the
  validation module calls are written out on that type.

  \<^verbatim>\<open>String.prototype.trim\<close> strips white space and line terminators from both ends; the
  code units below 256 among them are TAB, LF, VT, FF, CR, SPACE and NBSP.
\<close>

definition isWhiteSpace :: "char \<Rightarrow> bool" where
  "isWhiteSpace c =
     (c = CHR 0x09 \<or> c = CHR 0x0A \<or> c = CHR 0x0B \<or> c = CHR 0x0C \<or> c = CHR 0x0D \<or>
      c = CHR 0x20 \<or> c = CHR 0xA0)"

definition trim :: "string \<Rightarrow> string" where
  "trim s = rev (dropWhile isWhiteSpace (rev (dropWhile isWhiteSpace s)))"

text \<open>
  \<^verbatim>\<open>s.split(',', 1)\<close>: the pieces of \<open>s\<close> between commas, cut to at most one piece. A
  string always has a first piece (the empty string has the empty piece).
\<close>

definition split_limit1 :: "string \<Rightarrow> string list" where
  "split_limit1 s = [takeWhile (\<lambda>c. c \<noteq> CHR '','') s]"

text \<open>\<^verbatim>\<open>Array.prototype.toString\<close> joins the elements with a comma.\<close>

fun join :: "string list \<Rightarrow> string" where
  "join [] = []"
| "join [x] = x"
| "join (x # y # ys) = x @ '','' @ join (y # ys)"

text \<open>
  \<^verbatim>\<open>String.prototype.toLowerCase\<close> on code units below 256: the ASCII capitals and the
  Latin-1 capitals (all of 0xC0 to 0xDE but the multiplication sign 0xD7) move up by 32.
\<close>

definition toLowerCase_char :: "char \<Rightarrow> char" where
  "toLowerCase_char c =
     (let n = (of_char c :: nat)
      in if (65 \<le> n \<and> n \<le> 90) \<or> (192 \<le> n \<and> n \<le> 222 \<and> n \<noteq> 215)
         then char_of (n + 32) else c)"

definition toLowerCase :: "string \<Rightarrow> string" where
  "toLowerCase s = map toLowerCase_char s"

text \<open>\<^verbatim>\<open>startsWith\<close>, \<^verbatim>\<open>endsWith\<close> and \<^verbatim>\<open>slice(1)\<close>.\<close>

definition startsWith :: "string \<Rightarrow> string \<Rightarrow> bool" where
  "startsWith s p = prefix p s"

definition endsWith :: "string \<Rightarrow> string \<Rightarrow> bool" where
  "endsWith s p = suffix p s"

definition slice1 :: "string \<Rightarrow> string" where
  "slice1 s = drop 1 s"

section \<open>The regular expressions\<close>

text \<open>
  The three patterns have no \<open>u\<close> flag, so under \<open>i\<close> a code unit is compared after
  \<^verbatim>\<open>toUpperCase\<close>, and a code unit of 128 or more is never taken to an ASCII one: the
  class \<^verbatim>\<open>[a-z0-9.:-]\<close> with \<open>i\<close> holds the ASCII letters of both cases, the digits and
  the three marks, and nothing else. \<^verbatim>\<open>\d\<close> is the ten ASCII digits.
\<close>

definition asciiLower :: string where
  "asciiLower = ''abcdefghijklmnopqrstuvwxyz''"

definition asciiUpper :: string where
  "asciiUpper = ''ABCDEFGHIJKLMNOPQRSTUVWXYZ''"

definition isDigit :: "char \<Rightarrow> bool" where
  "isDigit c = (c \<in> set ''0123456789'')"

definition isLower :: "char \<Rightarrow> bool" where
  "isLower c = (c \<in> set asciiLower)"

definition isUpper :: "char \<Rightarrow> bool" where
  "isUpper c = (c \<in> set asciiUpper)"

definition isHostChar :: "char \<Rightarrow> bool" where
  "isHostChar c =
     (isLower c \<or> isUpper c \<or> isDigit c \<or> c = CHR ''.'' \<or> c = CHR '':'' \<or> c = CHR ''-'')"

text \<open>\<^verbatim>\<open>/^\d+$/\<close>\<close>

definition VALID_PORT_REGEX :: "string \<Rightarrow> bool" where
  "VALID_PORT_REGEX s = (s \<noteq> [] \<and> list_all isDigit s)"

text \<open>\<^verbatim>\<open>/^https?$/i\<close>\<close>

definition canonicalize :: "char \<Rightarrow> char" where
  "canonicalize c = (case map_of (zip asciiLower asciiUpper) c of Some u \<Rightarrow> u | None \<Rightarrow> c)"

definition VALID_PROTO_REGEX :: "string \<Rightarrow> bool" where
  "VALID_PROTO_REGEX s = (map canonicalize s = ''HTTP'' \<or> map canonicalize s = ''HTTPS'')"

text \<open>\<^verbatim>\<open>/^[a-z0-9.:-]+$/i\<close>\<close>

definition VALID_HOST_REGEX :: "string \<Rightarrow> bool" where
  "VALID_HOST_REGEX s = (s \<noteq> [] \<and> list_all isHostChar s)"

section \<open>getFirstHeaderValue\<close>

text \<open>
  The argument is \<^verbatim>\<open>string | string[] | undefined | null\<close>: \<open>None\<close> stands for the two
  absent values. The body is
  \<^verbatim>\<open>value?.toString().split(',', 1)[0]?.trim()\<close>.
\<close>

datatype header_value = Str string | Arr "string list"

fun toString :: "header_value \<Rightarrow> string" where
  "toString (Str s) = s"
| "toString (Arr xs) = join xs"

definition getFirstHeaderValue :: "header_value option \<Rightarrow> string option" where
  "getFirstHeaderValue v =
     (case v of
        None \<Rightarrow> None
      | Some x \<Rightarrow>
          (case split_limit1 (toString x) of
             [] \<Rightarrow> None
           | piece # _ \<Rightarrow> Some (trim piece)))"

text \<open>A header read with \<^verbatim>\<open>headers.get\<close> is \<^verbatim>\<open>string | null\<close>.\<close>

definition firstOf :: "string option \<Rightarrow> string option" where
  "firstOf v = getFirstHeaderValue (map_option Str v)"

text \<open>The truthiness of \<^verbatim>\<open>string | null | undefined\<close>: only a non-empty string is truthy.\<close>

definition truthy :: "string option \<Rightarrow> bool" where
  "truthy v = (case v of None \<Rightarrow> False | Some s \<Rightarrow> s \<noteq> [])"

section \<open>isHostAllowed\<close>

text \<open>
  \<^verbatim>\<open>ReadonlySet<string>\<close> is the list of its members in insertion order, which is the
  order the \<^verbatim>\<open>for ... of\<close> loop visits them in; \<^verbatim>\<open>has\<close> is membership.
\<close>

fun wildcardLoop :: "string \<Rightarrow> string list \<Rightarrow> bool" where
  "wildcardLoop hostname [] = False"
| "wildcardLoop hostname (allowedHost # rest) =
     (if \<not> startsWith allowedHost ''*.'' then wildcardLoop hostname rest
      else if endsWith hostname (slice1 allowedHost) then True
      else wildcardLoop hostname rest)"

definition isHostAllowed :: "string \<Rightarrow> string list \<Rightarrow> bool" where
  "isHostAllowed hostname allowedHosts =
     (if hostname \<in> set allowedHosts then True else wildcardLoop hostname allowedHosts)"

section \<open>Errors, URLs and requests\<close>

text \<open>
  \<^verbatim>\<open>new Error(message)\<close> is \<open>Error message\<close>; \<open>TypeError\<close> is what the platform's
  \<^verbatim>\<open>new URL\<close> throws on a string it cannot parse.
\<close>

datatype error = Error string | TypeError string

text \<open>
  Of a parsed \<^verbatim>\<open>URL\<close> the module reads the \<^verbatim>\<open>hostname\<close> only. The parser itself belongs
  to the platform, not to this module: every function that parses takes it as the
  parameter \<open>parseURL\<close>, with \<open>None\<close> for a string that \<^verbatim>\<open>URL.canParse\<close> rejects (and on which
  \<^verbatim>\<open>new URL\<close> throws).
\<close>

record url =
  hostname :: string

type_synonym url_parser = "string \<Rightarrow> url option"

text \<open>
  A \<^verbatim>\<open>Headers\<close> object is the list of its (name, value) pairs as the platform iterates
  them: names in lower case, one pair per name. \<^verbatim>\<open>get\<close> compares names byte-case-insensitively.

  The platform's \<^verbatim>\<open>get(name)\<close> first tests that \<open>name\<close> is a header name, a non-empty string
  of token characters (letters, digits and \<^verbatim>\<open>! # $ % & ' * + - . ^ _ ` | ~\<close>), and throws a
  \<^verbatim>\<open>TypeError\<close> of its own when it is not. \<open>originalGet\<close> is the lookup that follows the
  test: it describes the call for a header name, and what is proved of a call with a name
  supplied by the caller is proved for header names (\<open>isHeaderName\<close>). The names the module
  itself passes (\<^verbatim>\<open>host\<close>, \<^verbatim>\<open>x-forwarded-host\<close>, \<^verbatim>\<open>x-forwarded-port\<close>,
  \<^verbatim>\<open>x-forwarded-proto\<close>) are header names.
\<close>

definition isTokenChar :: "char \<Rightarrow> bool" where
  "isTokenChar c =
     (isLower c \<or> isUpper c \<or> isDigit c
      \<or> c \<in> set [CHR 0x21, CHR 0x23, CHR 0x24, CHR 0x25, CHR 0x26, CHR 0x27, CHR 0x2A, CHR 0x2B,
                  CHR 0x2D, CHR 0x2E, CHR 0x5E, CHR 0x5F, CHR 0x60, CHR 0x7C, CHR 0x7E])"

definition isHeaderName :: "string \<Rightarrow> bool" where
  "isHeaderName name = (name \<noteq> [] \<and> list_all isTokenChar name)"

type_synonym headers = "(string \<times> string) list"

definition byteLowercase :: "string \<Rightarrow> string" where
  "byteLowercase s =
     map (\<lambda>c. case map_of (zip asciiUpper asciiLower) c of Some l \<Rightarrow> l | None \<Rightarrow> c) s"

definition originalGet :: "headers \<Rightarrow> string \<Rightarrow> string option" where
  "originalGet hs name = map_of hs (byteLowercase name)"

definition originalValues :: "headers \<Rightarrow> string list" where
  "originalValues hs = map snd hs"

definition originalEntries :: "headers \<Rightarrow> (string \<times> string) list" where
  "originalEntries hs = hs"

record request =
  req_url :: string
  req_headers :: headers

definition HOST_HEADERS_TO_VALIDATE :: "string list" where
  "HOST_HEADERS_TO_VALIDATE = [''host'', ''x-forwarded-host'']"

section \<open>validateHeaders, validateUrl, validateRequest\<close>

definition msg_chars :: "string \<Rightarrow> string" where
  "msg_chars headerName =
     ''Header \"'' @ headerName @ ''\" contains characters that are not allowed.''"

definition msg_port :: string where
  "msg_port = ''Header \"x-forwarded-port\" must be a numeric value.''"

definition msg_proto :: string where
  "msg_proto = ''Header \"x-forwarded-proto\" must be either \"http\" or \"https\".''"

definition msg_url :: "string \<Rightarrow> string" where
  "msg_url h = ''URL with hostname \"'' @ h @ ''\" is not allowed.''"

definition msg_unparsable :: "string \<Rightarrow> string" where
  "msg_unparsable headerName =
     ''Header \"'' @ headerName @ ''\" contains an invalid value and cannot be parsed.''"

definition msg_not_allowed :: "string \<Rightarrow> string \<Rightarrow> string" where
  "msg_not_allowed headerName v =
     ''Header \"'' @ headerName @ ''\" with value \"'' @ v @ ''\" is not allowed.''"

text \<open>
  The shape of the three tests, \<^verbatim>\<open>value && !REGEX.test(value)\<close>: an absent or empty first
  value is falsy and never reaches the pattern.
\<close>

definition rejects :: "(string \<Rightarrow> bool) \<Rightarrow> string option \<Rightarrow> bool" where
  "rejects regex v = (case v of None \<Rightarrow> False | Some s \<Rightarrow> s \<noteq> [] \<and> \<not> regex s)"

text \<open>The loop over \<open>HOST_HEADERS_TO_VALIDATE\<close> at the head of \<^verbatim>\<open>validateHeaders\<close>.\<close>

fun hostHeadersLoop :: "headers \<Rightarrow> string list \<Rightarrow> error + unit" where
  "hostHeadersLoop hs [] = Inr ()"
| "hostHeadersLoop hs (headerName # rest) =
     (let headerValue = firstOf (originalGet hs headerName)
      in if rejects VALID_HOST_REGEX headerValue
         then Inl (Error (msg_chars headerName))
         else hostHeadersLoop hs rest)"

definition validateHeaders :: "request \<Rightarrow> error + unit" where
  "validateHeaders request =
     (let hs = req_headers request
      in case hostHeadersLoop hs HOST_HEADERS_TO_VALIDATE of
           Inl e \<Rightarrow> Inl e
         | Inr _ \<Rightarrow>
             (let xForwardedPort = firstOf (originalGet hs ''x-forwarded-port'')
              in if rejects VALID_PORT_REGEX xForwardedPort
                 then Inl (Error msg_port)
                 else
                   (let xForwardedProto = firstOf (originalGet hs ''x-forwarded-proto'')
                    in if rejects VALID_PROTO_REGEX xForwardedProto
                       then Inl (Error msg_proto)
                       else Inr ())))"

definition validateUrl :: "url \<Rightarrow> string list \<Rightarrow> error + unit" where
  "validateUrl u allowedHosts =
     (if \<not> isHostAllowed (hostname u) allowedHosts
      then Inl (Error (msg_url (hostname u)))
      else Inr ())"

definition validateRequest :: "url_parser \<Rightarrow> request \<Rightarrow> string list \<Rightarrow> error + unit" where
  "validateRequest parseURL request allowedHosts =
     (case validateHeaders request of
        Inl e \<Rightarrow> Inl e
      | Inr _ \<Rightarrow>
          (case parseURL (req_url request) of
             None \<Rightarrow> Inl (TypeError ''Invalid URL'')
           | Some u \<Rightarrow> validateUrl u allowedHosts))"

section \<open>cloneRequestAndPatchHeaders\<close>

text \<open>
  \<^verbatim>\<open>verifyHostAllowed\<close>: the first value of the header, an early return when it is empty,
  the synthetic URL, and the allowlist test on the parsed hostname.
\<close>

definition verifyHostAllowed ::
  "url_parser \<Rightarrow> string \<Rightarrow> string \<Rightarrow> string list \<Rightarrow> error + unit" where
  "verifyHostAllowed parseURL headerName headerValue allowedHosts =
     (case getFirstHeaderValue (Some (Str headerValue)) of
        None \<Rightarrow> Inr ()
      | Some v \<Rightarrow>
          if v = [] then Inr ()
          else
            (case parseURL (''http://'' @ v) of
               None \<Rightarrow> Inl (Error (msg_unparsable headerName))
             | Some u \<Rightarrow>
                 if \<not> isHostAllowed (hostname u) allowedHosts
                 then Inl (Error (msg_not_allowed headerName v))
                 else Inr ()))"

text \<open>
  The state behind one guarded request. An error object is the pair of its identity and
  its content: every \<^verbatim>\<open>new Error\<close> makes a fresh object, numbered by \<open>created\<close>.
  \<open>onErrorPromise\<close> is the settled value of the promise (\<open>None\<close> while it is pending), and
  \<open>iterators\<close> holds, for each iterator that \<^verbatim>\<open>entries()\<close> has handed out, the pairs its
  underlying iterator has still to produce.
\<close>

type_synonym error_obj = "nat \<times> error"

record guard =
  clonedHeaders :: headers
  allowedHosts :: "string list"
  onErrorPromise :: "error_obj option"
  created :: nat
  iterators :: "(string \<times> string) list list"

definition cloneRequestAndPatchHeaders :: "request \<Rightarrow> string list \<Rightarrow> guard" where
  "cloneRequestAndPatchHeaders request allowed =
     \<lparr> clonedHeaders = req_headers request, allowedHosts = allowed,
       onErrorPromise = None, created = 0, iterators = [] \<rparr>"

text \<open>
  \<^verbatim>\<open>onError\<close> is the promise's \<^verbatim>\<open>resolve\<close>: it settles a pending promise and does nothing
  to a settled one.
\<close>

definition onError :: "error_obj \<Rightarrow> guard \<Rightarrow> guard" where
  "onError e g =
     (case onErrorPromise g of
        None \<Rightarrow> g\<lparr>onErrorPromise := Some e\<rparr>
      | Some _ \<Rightarrow> g)"

definition validateHeader ::
  "url_parser \<Rightarrow> string \<Rightarrow> string option \<Rightarrow> string list \<Rightarrow> guard \<Rightarrow> (error_obj + unit) \<times> guard"
  where
  "validateHeader parseURL name v allowed g =
     (case v of
        None \<Rightarrow> (Inr (), g)
      | Some s \<Rightarrow>
          if s = [] then (Inr (), g)
          else if toLowerCase name \<notin> set HOST_HEADERS_TO_VALIDATE then (Inr (), g)
          else
            (case verifyHostAllowed parseURL name s allowed of
               Inr _ \<Rightarrow> (Inr (), g)
             | Inl e \<Rightarrow>
                 (let obj = (created g, e)
                  in (Inl obj, onError obj (g\<lparr>created := Suc (created g)\<rparr>)))))"

text \<open>The patched \<^verbatim>\<open>headers.get\<close>.\<close>

definition patched_get ::
  "url_parser \<Rightarrow> string \<Rightarrow> guard \<Rightarrow> (error_obj + string option) \<times> guard" where
  "patched_get parseURL name g =
     (let v = originalGet (clonedHeaders g) name
      in if \<not> truthy v then (Inr v, g)
         else
           (case validateHeader parseURL name v (allowedHosts g) g of
              (Inl e, g') \<Rightarrow> (Inl e, g')
            | (Inr _, g') \<Rightarrow> (Inr v, g')))"

text \<open>The patched \<^verbatim>\<open>headers.values\<close>, with its loop over \<open>HOST_HEADERS_TO_VALIDATE\<close>.\<close>

fun valuesLoop :: "url_parser \<Rightarrow> string list \<Rightarrow> guard \<Rightarrow> (error_obj + unit) \<times> guard" where
  "valuesLoop parseURL [] g = (Inr (), g)"
| "valuesLoop parseURL (name # rest) g =
     (case validateHeader parseURL name (originalGet (clonedHeaders g) name) (allowedHosts g) g of
        (Inl e, g') \<Rightarrow> (Inl e, g')
      | (Inr _, g') \<Rightarrow> valuesLoop parseURL rest g')"

definition patched_values ::
  "url_parser \<Rightarrow> guard \<Rightarrow> (error_obj + string list) \<times> guard" where
  "patched_values parseURL g =
     (case valuesLoop parseURL HOST_HEADERS_TO_VALIDATE g of
        (Inl e, g') \<Rightarrow> (Inl e, g')
      | (Inr _, g') \<Rightarrow> (Inr (originalValues (clonedHeaders g')), g'))"

text \<open>
  The patched \<^verbatim>\<open>headers.entries\<close> hands out a new iterator over the underlying one; the
  result is its index in \<open>iterators\<close>. \<^verbatim>\<open>headers[Symbol.iterator]\<close> is assigned the same
  function.
\<close>

definition patched_entries :: "guard \<Rightarrow> nat \<times> guard" where
  "patched_entries g =
     (length (iterators g), g\<lparr>iterators := iterators g @ [originalEntries (clonedHeaders g)]\<rparr>)"

definition patched_Symbol_iterator :: "guard \<Rightarrow> nat \<times> guard" where
  "patched_Symbol_iterator = patched_entries"

text \<open>
  \<^verbatim>\<open>next()\<close> of iterator \<open>i\<close>: the underlying iterator moves first, then the pair is
  checked, then it is returned. \<open>None\<close> is the result with \<^verbatim>\<open>done\<close> set. An index that names
  no iterator stands for no object of the program and reads nothing.
\<close>

definition patched_next ::
  "url_parser \<Rightarrow> nat \<Rightarrow> guard \<Rightarrow> (error_obj + (string \<times> string) option) \<times> guard" where
  "patched_next parseURL i g =
     (if length (iterators g) \<le> i then (Inr None, g)
      else
        (case iterators g ! i of
           [] \<Rightarrow> (Inr None, g)
         | (key, v) # rest \<Rightarrow>
             (case validateHeader parseURL key (Some v) (allowedHosts g)
                     (g\<lparr>iterators := (iterators g)[i := rest]\<rparr>) of
                (Inl e, g') \<Rightarrow> (Inl e, g')
              | (Inr _, g') \<Rightarrow> (Inr (Some (key, v)), g'))))"

text \<open>
  A \<^verbatim>\<open>for ... of\<close> loop over iterator \<open>i\<close> (the iterator returns itself from
  \<^verbatim>\<open>[Symbol.iterator]()\<close>): it calls \<^verbatim>\<open>next()\<close> until the result is done or the call throws.
  The value is the error that ended the loop, if one did, and the pairs the loop body saw.
\<close>

definition remaining :: "nat \<Rightarrow> guard \<Rightarrow> nat" where
  "remaining i g = (if i < length (iterators g) then length (iterators g ! i) else 0)"

lemma validateHeader_iterators:
  "validateHeader parseURL name v allowed g = (r, g') \<Longrightarrow> iterators g' = iterators g"
  by (auto simp: validateHeader_def onError_def Let_def
      split: option.splits if_splits sum.splits)

lemma patched_next_remaining:
  "patched_next parseURL i g = (Inr (Some kv), g') \<Longrightarrow> remaining i g' < remaining i g"
  by (auto simp: patched_next_def remaining_def
      split: if_splits list.splits prod.splits sum.splits
      dest!: validateHeader_iterators)

function forOf ::
  "url_parser \<Rightarrow> nat \<Rightarrow> guard \<Rightarrow> (error_obj option \<times> (string \<times> string) list) \<times> guard" where
  "forOf parseURL i g =
     (case patched_next parseURL i g of
        (Inl e, g') \<Rightarrow> ((Some e, []), g')
      | (Inr None, g') \<Rightarrow> ((None, []), g')
      | (Inr (Some kv), g') \<Rightarrow>
          (case forOf parseURL i g' of ((r, kvs), g'') \<Rightarrow> ((r, kv # kvs), g'')))"
  by pat_completeness auto
termination
  by (relation "measure (\<lambda>(parseURL, i, g). remaining i g)")
     (auto dest: patched_next_remaining [OF sym])

declare forOf.simps [simp del]

text \<open>
  The accesses a caller can make on one guarded request, and a run of them. Each access
  is performed whether or not an earlier one threw (the caller of each is free to catch);
  \<open>perform\<close> keeps the error an access throws, if it throws, and the state it leaves.
\<close>

datatype access = Get string | Values | Entries | Next nat

fun perform :: "url_parser \<Rightarrow> access \<Rightarrow> guard \<Rightarrow> error_obj option \<times> guard" where
  "perform parseURL (Get name) g =
     (case patched_get parseURL name g of (Inl e, g') \<Rightarrow> (Some e, g') | (Inr _, g') \<Rightarrow> (None, g'))"
| "perform parseURL Values g =
     (case patched_values parseURL g of (Inl e, g') \<Rightarrow> (Some e, g') | (Inr _, g') \<Rightarrow> (None, g'))"
| "perform parseURL Entries g = (None, snd (patched_entries g))"
| "perform parseURL (Next i) g =
     (case patched_next parseURL i g of (Inl e, g') \<Rightarrow> (Some e, g') | (Inr _, g') \<Rightarrow> (None, g'))"

fun run :: "url_parser \<Rightarrow> access list \<Rightarrow> guard \<Rightarrow> error_obj option list \<times> guard" where
  "run parseURL [] g = ([], g)"
| "run parseURL (a # rest) g =
     (case perform parseURL a g of
        (r, g') \<Rightarrow> (case run parseURL rest g' of (rs, g'') \<Rightarrow> (r # rs, g'')))"

text \<open>The first error among the outcomes of a run.\<close>

fun firstThrown :: "error_obj option list \<Rightarrow> error_obj option" where
  "firstThrown [] = None"
| "firstThrown (None # rs) = firstThrown rs"
| "firstThrown (Some e # rs) = Some e"

section \<open>The platform's URL parser on the examples\<close>

text \<open>
  The examples below need the parser at a few strings. \<open>exampleURL\<close> tabulates what the
  URL standard's parser answers on them: the hostname in lower case without the port; and
  failure on \<^verbatim>\<open>http://\<close>, whose host is empty, on a host with a space in it, and on a port
  above 65535. No example relies on a string outside the table.
\<close>

definition exampleURL :: url_parser where
  "exampleURL s =
     (case map_of
        [(''http://example.com'', Some ''example.com''),
         (''https://example.com/'', Some ''example.com''),
         (''http://evil.com'', Some ''evil.com''),
         (''http://evil.com/'', Some ''evil.com''),
         (''http://EXAMPLE.com'', Some ''example.com''),
         (''http://Example.COM'', Some ''example.com''),
         (''http://example.com:8080'', Some ''example.com''),
         (''http://Example.COM:8080'', Some ''example.com''),
         (''http://'', None),
         (''http://bad host'', None),
         (''http://example.com:99999'', None)] s of
        Some (Some h) \<Rightarrow> Some \<lparr>hostname = h\<rparr>
      | _ \<Rightarrow> None)"

section \<open>Requests and checks named in the properties\<close>

text \<open>
  \<^verbatim>\<open>new Request(url, { headers })\<close>: \<open>u\<close> is the URL as \<^verbatim>\<open>request.url\<close> gives it back, which
  is the serialised form (\<^verbatim>\<open>http://example.com\<close> is kept as \<^verbatim>\<open>http://example.com/\<close>), and \<open>hs\<close>
  the header list as the platform keeps it.
\<close>

definition mkRequest :: "string \<Rightarrow> headers \<Rightarrow> request" where
  "mkRequest u hs = \<lparr>req_url = u, req_headers = hs\<rparr>"

text \<open>
  The condition of one check of \<^verbatim>\<open>validateHeaders\<close> on the header \<open>name\<close>: the first value
  is truthy and fails the pattern.
\<close>

definition headerRejected :: "(string \<Rightarrow> bool) \<Rightarrow> request \<Rightarrow> string \<Rightarrow> bool" where
  "headerRejected regex r name = rejects regex (firstOf (originalGet (req_headers r) name))"

section \<open>The guard in the words of the properties\<close>

text \<open>
  A header name is sensitive when its lower-case form is one of the validated names.
  \<open>thrown e g\<close> is the error object a \<^verbatim>\<open>new Error\<close> makes in state \<open>g\<close>, and
  \<open>afterThrow e g\<close> the state once it has been given to \<open>onError\<close> and thrown.
\<close>

definition sensitive :: "string \<Rightarrow> bool" where
  "sensitive name = (toLowerCase name \<in> set HOST_HEADERS_TO_VALIDATE)"

definition thrown :: "error \<Rightarrow> guard \<Rightarrow> error_obj" where
  "thrown e g = (created g, e)"

definition afterThrow :: "error \<Rightarrow> guard \<Rightarrow> guard" where
  "afterThrow e g = onError (thrown e g) (g\<lparr>created := Suc (created g)\<rparr>)"

text \<open>
  \<open>settles g r g'\<close> relates the states around one access with outcome \<open>r\<close>: no error
  leaves the promise as it was; an error is a fresh object and settles the promise only if
  it was pending. \<open>errorsOf\<close> lists the errors among the outcomes of a run.
\<close>

definition settles :: "guard \<Rightarrow> error_obj option \<Rightarrow> guard \<Rightarrow> bool" where
  "settles g r g' =
     (case r of
        None \<Rightarrow> onErrorPromise g' = onErrorPromise g \<and> created g' = created g
      | Some e \<Rightarrow>
          fst e = created g \<and> created g' = Suc (created g)
          \<and> onErrorPromise g' = (case onErrorPromise g of None \<Rightarrow> Some e | Some e0 \<Rightarrow> Some e0))"

fun errorsOf :: "error_obj option list \<Rightarrow> error_obj list" where
  "errorsOf [] = []"
| "errorsOf (None # rs) = errorsOf rs"
| "errorsOf (Some e # rs) = e # errorsOf rs"

text \<open>Guarded requests for the examples.\<close>

definition evilGuard :: guard where
  "evilGuard = cloneRequestAndPatchHeaders
     (mkRequest ''http://example.com/'' [(''accept'', ''application/json''), (''host'', ''evil.com'')])
     [''example.com'', ''*.valid.com'']"

definition badGuard :: guard where
  "badGuard = cloneRequestAndPatchHeaders
     (mkRequest ''http://example.com/'' [(''host'', ''bad host'')]) [''example.com'']"

definition commaGuard :: guard where
  "commaGuard = cloneRequestAndPatchHeaders
     (mkRequest ''http://example.com/'' [(''host'', '', evil.com'')]) [''example.com'']"

section \<open>Enumeration and parsing in the words of the properties\<close>

text \<open>
  The check the guard makes on one (name, value) pair: the error it throws, if it throws.
  \<open>presentCheck\<close> is that check on the stored value of a header, when there is one, and
  \<open>firstFailure\<close> the error of the first pair of a list that fails it.
\<close>

definition headerCheck :: "url_parser \<Rightarrow> string list \<Rightarrow> string \<times> string \<Rightarrow> error option" where
  "headerCheck parseURL allowed kv =
     (if sensitive (fst kv) \<and> snd kv \<noteq> []
      then (case verifyHostAllowed parseURL (fst kv) (snd kv) allowed of
              Inl e \<Rightarrow> Some e
            | Inr _ \<Rightarrow> None)
      else None)"

definition presentCheck :: "url_parser \<Rightarrow> guard \<Rightarrow> string \<Rightarrow> error option" where
  "presentCheck parseURL g name =
     (case originalGet (clonedHeaders g) name of
        None \<Rightarrow> None
      | Some v \<Rightarrow> headerCheck parseURL (allowedHosts g) (name, v))"

fun firstFailure :: "url_parser \<Rightarrow> string list \<Rightarrow> (string \<times> string) list \<Rightarrow> error option" where
  "firstFailure parseURL allowed [] = None"
| "firstFailure parseURL allowed (kv # rest) =
     (case headerCheck parseURL allowed kv of
        Some e \<Rightarrow> Some e
      | None \<Rightarrow> firstFailure parseURL allowed rest)"


definition mixedGuard :: guard where
  "mixedGuard = cloneRequestAndPatchHeaders
     (mkRequest ''http://example.com/''
        [(''accept'', ''application/json''), (''host'', ''evil.com''), (''x-custom'', ''1'')])
     [''example.com'']"

section \<open>The allowlist matcher\<close>

lemma wildcardLoop_iff:
  "wildcardLoop h A \<longleftrightarrow> (\<exists>a\<in>set A. startsWith a ''*.'' \<and> endsWith h (slice1 a))"
  by (induction A) auto

lemma startsWith_wildcard: "startsWith a ''*.'' \<longleftrightarrow> (\<exists>sfx. a = ''*.'' @ sfx)"
  by (auto simp: startsWith_def prefix_def)

lemma slice1_wildcard: "slice1 (''*.'' @ sfx) = ''.'' @ sfx"
  by (simp add: slice1_def)

lemma not_endsWith_longer: "\<not> endsWith s (''.'' @ s)"
  by (auto simp: endsWith_def dest: suffix_length_le)

lemma isHostAllowed_char:
  "isHostAllowed h A \<longleftrightarrow> h \<in> set A \<or> (\<exists>sfx. ''*.'' @ sfx \<in> set A \<and> endsWith h (''.'' @ sfx))"
proof -
  have "wildcardLoop h A \<longleftrightarrow> (\<exists>sfx. ''*.'' @ sfx \<in> set A \<and> endsWith h (''.'' @ sfx))"
    unfolding wildcardLoop_iff
  proof
    assume "\<exists>a\<in>set A. startsWith a ''*.'' \<and> endsWith h (slice1 a)"
    then obtain a where a: "a \<in> set A" "startsWith a ''*.''" "endsWith h (slice1 a)" by blast
    from a(2) obtain sfx where "a = ''*.'' @ sfx" unfolding startsWith_wildcard by blast
    with a(1,3) show "\<exists>sfx. ''*.'' @ sfx \<in> set A \<and> endsWith h (''.'' @ sfx)"
      using slice1_wildcard by metis
  next
    assume "\<exists>sfx. ''*.'' @ sfx \<in> set A \<and> endsWith h (''.'' @ sfx)"
    then obtain sfx where s: "''*.'' @ sfx \<in> set A" "endsWith h (''.'' @ sfx)" by blast
    have "startsWith (''*.'' @ sfx) ''*.''" unfolding startsWith_wildcard by blast
    moreover have "endsWith h (slice1 (''*.'' @ sfx))" using s(2) by (simp only: slice1_wildcard)
    ultimately show "\<exists>a\<in>set A. startsWith a ''*.'' \<and> endsWith h (slice1 a)"
      using s(1) by blast
  qed
  then show ?thesis by (simp add: isHostAllowed_def)
qed

text \<open>
  Claim C3. For every hostname \<open>h\<close> and allowlist \<open>A\<close>, \<open>isHostAllowed h A\<close> holds iff \<open>h\<close>
  is a member of \<open>A\<close> or some member of \<open>A\<close> of the form \<^verbatim>\<open>*.<suffix>\<close> is such that \<open>h\<close> ends
  with \<^verbatim>\<open>.<suffix>\<close>. A wildcard entry \<^verbatim>\<open>*.<suffix>\<close> adds nothing for the hostname
  \<^verbatim>\<open><suffix>\<close> itself: with the entry or without it the answer for \<^verbatim>\<open><suffix>\<close> is the same.
  The comparison is on the raw strings, with no case folding.
\<close>

theorem isHostAllowed_spec:
  "(isHostAllowed h A \<longleftrightarrow>
      h \<in> set A \<or> (\<exists>sfx. ''*.'' @ sfx \<in> set A \<and> endsWith h (''.'' @ sfx)))
   \<and> (isHostAllowed s ((''*.'' @ s) # B) \<longleftrightarrow> isHostAllowed s B)
   \<and> isHostAllowed ''foo.google.com'' [''*.google.com'']
   \<and> \<not> isHostAllowed ''google.com'' [''*.google.com'']
   \<and> isHostAllowed ''example.com'' [''example.com'']
   \<and> \<not> isHostAllowed ''EXAMPLE.com'' [''example.com'']"
proof -
  have 1: "isHostAllowed h A \<longleftrightarrow>
      h \<in> set A \<or> (\<exists>sfx. ''*.'' @ sfx \<in> set A \<and> endsWith h (''.'' @ sfx))"
    by (rule isHostAllowed_char)
  have "s \<noteq> ''*.'' @ s"
    by (metis append_self_conv2 list.distinct(1))
  then have 2: "isHostAllowed s ((''*.'' @ s) # B) \<longleftrightarrow> isHostAllowed s B"
    using not_endsWith_longer [of s]
    by (simp add: isHostAllowed_def startsWith_def slice1_def)
  have 3: "isHostAllowed ''foo.google.com'' [''*.google.com'']"
    by (simp add: isHostAllowed_def startsWith_def endsWith_def slice1_def suffix_to_prefix)
  have 4: "\<not> isHostAllowed ''google.com'' [''*.google.com'']"
    by (simp add: isHostAllowed_def startsWith_def endsWith_def slice1_def suffix_to_prefix)
  have 5: "isHostAllowed ''example.com'' [''example.com'']"
    by (simp add: isHostAllowed_def)
  have 6: "\<not> isHostAllowed ''EXAMPLE.com'' [''example.com'']"
    by (simp add: isHostAllowed_def startsWith_def)
  from 1 2 3 4 5 6 show ?thesis by blast
qed

theorem isHostAllowed_spec_witness:
  "isHostAllowed ''sub.foo.google.com'' [''example.com'', ''*.google.com'']
   \<and> \<not> isHostAllowed ''evilgoogle.com'' [''example.com'', ''*.google.com'']
   \<and> \<not> isHostAllowed ''google.com'' [''*.google.com'', ''example.com'']"
proof -
  have a: "''*.google.com'' = ''*.'' @ ''google.com''" by simp
  have "isHostAllowed ''sub.foo.google.com'' [''example.com'', ''*.google.com'']"
    using isHostAllowed_spec [of "''sub.foo.google.com''" "[''example.com'', ''*.google.com'']"]
    by (simp add: endsWith_def suffix_to_prefix)
  moreover have "\<not> isHostAllowed ''evilgoogle.com'' [''example.com'', ''*.google.com'']"
    using isHostAllowed_spec [of "''evilgoogle.com''" "[''example.com'', ''*.google.com'']"]
    by (auto simp add: endsWith_def suffix_to_prefix)
  moreover have "\<not> isHostAllowed ''google.com'' [''*.google.com'', ''example.com'']"
    using isHostAllowed_spec [of _ _ "''google.com''" "[''example.com'']"]
    by (simp add: isHostAllowed_def startsWith_def)
  ultimately show ?thesis by blast
qed

section \<open>The first value of a header\<close>

lemma split_limit1_segment:
  "split_limit1 s = [seg] \<Longrightarrow> CHR '','' \<notin> set seg \<and> (s = seg \<or> prefix (seg @ '','') s)"
proof -
  assume "split_limit1 s = [seg]"
  then have seg: "seg = takeWhile (\<lambda>c. c \<noteq> CHR '','') s" by (simp add: split_limit1_def)
  have 1: "CHR '','' \<notin> set seg"
    unfolding seg by (auto dest: set_takeWhileD)
  have s: "s = seg @ dropWhile (\<lambda>c. c \<noteq> CHR '','') s"
    unfolding seg by simp
  show ?thesis
  proof (cases "dropWhile (\<lambda>c. c \<noteq> CHR '','') s")
    case Nil
    with s 1 show ?thesis by simp
  next
    case (Cons c cs)
    then have "c = CHR '',''"
      using hd_dropWhile [of "\<lambda>c. c \<noteq> CHR '',''" s] by auto
    with Cons s have "s = (seg @ '','') @ cs" by simp
    then have "prefix (seg @ '','') s" by (metis prefixI)
    with 1 show ?thesis by blast
  qed
qed

lemma trim_decomp:
  "\<exists>l t. s = l @ trim s @ t \<and> list_all isWhiteSpace l \<and> list_all isWhiteSpace t
     \<and> (trim s = [] \<or> (\<not> isWhiteSpace (hd (trim s)) \<and> \<not> isWhiteSpace (last (trim s))))"
proof -
  define l where "l = takeWhile isWhiteSpace s"
  define m where "m = dropWhile isWhiteSpace s"
  define t where "t = rev (takeWhile isWhiteSpace (rev m))"
  have tr: "trim s = rev (dropWhile isWhiteSpace (rev m))"
    by (simp add: trim_def m_def)
  have "rev (dropWhile isWhiteSpace (rev m)) @ rev (takeWhile isWhiteSpace (rev m))
          = rev (takeWhile isWhiteSpace (rev m) @ dropWhile isWhiteSpace (rev m))"
    by (simp only: rev_append)
  also have "\<dots> = rev (rev m)" by (simp only: takeWhile_dropWhile_id)
  finally have m: "m = trim s @ t" by (simp add: tr t_def)
  have "s = l @ m" by (simp add: l_def m_def)
  with m have s: "s = l @ trim s @ t" by simp
  have wl: "list_all isWhiteSpace l"
    by (auto simp: l_def list_all_iff dest: set_takeWhileD)
  have wt: "list_all isWhiteSpace t"
    by (auto simp: t_def list_all_iff dest: set_takeWhileD)
  have ends: "\<not> isWhiteSpace (hd (trim s)) \<and> \<not> isWhiteSpace (last (trim s))" if ne: "trim s \<noteq> []"
  proof -
    from ne m have "m \<noteq> []" by auto
    then have "\<not> isWhiteSpace (hd m)" unfolding m_def by (rule hd_dropWhile)
    moreover have "hd m = hd (trim s)" using m ne by (metis hd_append2)
    moreover have "dropWhile isWhiteSpace (rev m) \<noteq> []" using ne tr by auto
    then have "\<not> isWhiteSpace (hd (dropWhile isWhiteSpace (rev m)))" by (rule hd_dropWhile)
    then have "\<not> isWhiteSpace (last (trim s))" using ne by (simp add: tr last_rev)
    ultimately show ?thesis by simp
  qed
  from s wl wt ends show ?thesis by blast
qed

lemma getFirstHeaderValue_Str:
  "getFirstHeaderValue (Some (Str s)) = Some (trim (takeWhile (\<lambda>c. c \<noteq> CHR '','') s))"
  by (simp add: getFirstHeaderValue_def split_limit1_def)

lemma takeWhile_join:
  "takeWhile (\<lambda>c. c \<noteq> CHR '','') (join (x # xs)) = takeWhile (\<lambda>c. c \<noteq> CHR '','') x"
proof (cases xs)
  case Nil
  then show ?thesis by simp
next
  case (Cons y ys)
  have "takeWhile (\<lambda>c. c \<noteq> CHR '','') (x @ '','' @ join (y # ys)) = takeWhile (\<lambda>c. c \<noteq> CHR '','') x"
    by (induction x) auto
  with Cons show ?thesis by simp
qed

text \<open>
  Claim C7, as amended. \<open>getFirstHeaderValue\<close> is a total function with no effect: an absent
  input yields absent; the empty string yields the empty string; a single string yields the
  segment left of its first comma with the white space at both ends removed; a non-empty
  sequence of strings yields what its first element yields as a single string (the
  sequence is joined with commas first, so the first element is cut at its first comma and
  trimmed like any string); and the empty sequence yields the empty string.
\<close>

theorem getFirstHeaderValue_spec:
  "getFirstHeaderValue None = None
   \<and> getFirstHeaderValue (Some (Str [])) = Some []
   \<and> (\<exists>seg l t r. getFirstHeaderValue (Some (Str s)) = Some r
         \<and> CHR '','' \<notin> set seg \<and> (s = seg \<or> prefix (seg @ '','') s)
         \<and> seg = l @ r @ t \<and> list_all isWhiteSpace l \<and> list_all isWhiteSpace t
         \<and> (r = [] \<or> (\<not> isWhiteSpace (hd r) \<and> \<not> isWhiteSpace (last r))))
   \<and> getFirstHeaderValue (Some (Arr (x # xs))) = getFirstHeaderValue (Some (Str x))
   \<and> getFirstHeaderValue (Some (Arr [])) = Some []"
proof -
  have 1: "getFirstHeaderValue None = None"
    by (simp add: getFirstHeaderValue_def)
  have 2: "getFirstHeaderValue (Some (Str [])) = Some []"
    by (simp add: getFirstHeaderValue_Str trim_def)
  define seg where "seg = takeWhile (\<lambda>c. c \<noteq> CHR '','') s"
  have "split_limit1 s = [seg]" by (simp add: split_limit1_def seg_def)
  then have a: "CHR '','' \<notin> set seg \<and> (s = seg \<or> prefix (seg @ '','') s)"
    by (rule split_limit1_segment)
  obtain l t where b: "seg = l @ trim seg @ t" "list_all isWhiteSpace l" "list_all isWhiteSpace t"
    "trim seg = [] \<or> (\<not> isWhiteSpace (hd (trim seg)) \<and> \<not> isWhiteSpace (last (trim seg)))"
    using trim_decomp [of seg] by blast
  have c: "getFirstHeaderValue (Some (Str s)) = Some (trim seg)"
    by (simp add: getFirstHeaderValue_Str seg_def)
  from a b c have 3: "\<exists>seg l t r. getFirstHeaderValue (Some (Str s)) = Some r
         \<and> CHR '','' \<notin> set seg \<and> (s = seg \<or> prefix (seg @ '','') s)
         \<and> seg = l @ r @ t \<and> list_all isWhiteSpace l \<and> list_all isWhiteSpace t
         \<and> (r = [] \<or> (\<not> isWhiteSpace (hd r) \<and> \<not> isWhiteSpace (last r)))"
    by blast
  have 4: "getFirstHeaderValue (Some (Arr (x # xs))) = getFirstHeaderValue (Some (Str x))"
    by (simp add: getFirstHeaderValue_def split_limit1_def takeWhile_join del: join.simps)
  have 5: "getFirstHeaderValue (Some (Arr [])) = Some []"
    by (simp add: getFirstHeaderValue_def split_limit1_def trim_def)
  from 1 2 3 4 5 show ?thesis by blast
qed

theorem getFirstHeaderValue_spec_witness:
  "getFirstHeaderValue (Some (Arr [''value1'', ''value2''])) = Some ''value1''
   \<and> getFirstHeaderValue (Some (Str ''value1, value2'')) = Some ''value1''"
  using getFirstHeaderValue_spec [of "''value1, value2''" "''value1''" "[''value2'']"]
  by (simp add: getFirstHeaderValue_Str trim_def isWhiteSpace_def)

text \<open>
  Claim C7 as first stated has a sequence yield its first element as it is, with no
  splitting and no trimming. The first element \<^verbatim>\<open>a,b\<close> yields \<^verbatim>\<open>a\<close>, and the first element
  \<^verbatim>\<open> a \<close> (with a space on each side) yields \<^verbatim>\<open>a\<close>.
\<close>

theorem getFirstHeaderValue_array_counterexample:
  "getFirstHeaderValue (Some (Arr [''a,b'', ''c''])) = Some ''a''
   \<and> getFirstHeaderValue (Some (Arr [''a,b'', ''c''])) \<noteq> Some ''a,b''
   \<and> getFirstHeaderValue (Some (Arr ['' a '', ''c''])) = Some ''a''
   \<and> getFirstHeaderValue (Some (Arr ['' a '', ''c''])) \<noteq> Some '' a ''"
  by (simp add: getFirstHeaderValue_def split_limit1_def trim_def isWhiteSpace_def)

section \<open>The eager validator\<close>

lemma validateHeaders_steps:
  "validateHeaders r =
     (if headerRejected VALID_HOST_REGEX r ''host'' then Inl (Error (msg_chars ''host''))
      else if headerRejected VALID_HOST_REGEX r ''x-forwarded-host''
        then Inl (Error (msg_chars ''x-forwarded-host''))
      else if headerRejected VALID_PORT_REGEX r ''x-forwarded-port'' then Inl (Error msg_port)
      else if headerRejected VALID_PROTO_REGEX r ''x-forwarded-proto'' then Inl (Error msg_proto)
      else Inr ())"
  by (simp add: validateHeaders_def HOST_HEADERS_TO_VALIDATE_def headerRejected_def Let_def)

lemma messages_distinct:
  "msg_chars ''host'' \<noteq> msg_chars ''x-forwarded-host''"
  "msg_chars ''host'' \<noteq> msg_port" "msg_chars ''host'' \<noteq> msg_proto"
  "msg_chars ''x-forwarded-host'' \<noteq> msg_port" "msg_chars ''x-forwarded-host'' \<noteq> msg_proto"
  "msg_port \<noteq> msg_proto"
  by (simp_all add: msg_chars_def msg_port_def msg_proto_def)

lemma rejects_iff: "rejects regex v \<longleftrightarrow> (\<exists>s. v = Some s \<and> s \<noteq> [] \<and> \<not> regex s)"
  by (cases v) (auto simp: rejects_def)

text \<open>
  Claim C8, as amended. \<open>validateHeaders\<close> makes its checks in the order \<^verbatim>\<open>host\<close>,
  \<^verbatim>\<open>x-forwarded-host\<close>, \<^verbatim>\<open>x-forwarded-port\<close>, \<^verbatim>\<open>x-forwarded-proto\<close> and throws the error of the
  first check that fails: the message naming \<^verbatim>\<open>host\<close> exactly when the first value of
  \<^verbatim>\<open>host\<close> is non-empty and has a character outside letters, digits, \<^verbatim>\<open>.\<close>, \<^verbatim>\<open>:\<close>, \<^verbatim>\<open>-\<close>;
  the message naming \<^verbatim>\<open>x-forwarded-host\<close> exactly when that holds of \<^verbatim>\<open>x-forwarded-host\<close>
  and not of \<^verbatim>\<open>host\<close>; the port message exactly when the first value of
  \<^verbatim>\<open>x-forwarded-port\<close> is non-empty and not all digits and neither host check fails; the
  protocol message exactly when the first value of \<^verbatim>\<open>x-forwarded-proto\<close> is non-empty and
  is not \<^verbatim>\<open>http\<close> or \<^verbatim>\<open>https\<close> in any letter case and no earlier check fails. It returns
  without an error exactly when no check fails; an absent or empty first value fails no
  check.
\<close>

theorem validateHeaders_spec:
  "(validateHeaders r = Inl (Error (msg_chars ''host'')) \<longleftrightarrow>
      headerRejected VALID_HOST_REGEX r ''host'')
   \<and> (validateHeaders r = Inl (Error (msg_chars ''x-forwarded-host'')) \<longleftrightarrow>
      \<not> headerRejected VALID_HOST_REGEX r ''host''
      \<and> headerRejected VALID_HOST_REGEX r ''x-forwarded-host'')
   \<and> (validateHeaders r = Inl (Error msg_port) \<longleftrightarrow>
      \<not> headerRejected VALID_HOST_REGEX r ''host''
      \<and> \<not> headerRejected VALID_HOST_REGEX r ''x-forwarded-host''
      \<and> headerRejected VALID_PORT_REGEX r ''x-forwarded-port'')
   \<and> (validateHeaders r = Inl (Error msg_proto) \<longleftrightarrow>
      \<not> headerRejected VALID_HOST_REGEX r ''host''
      \<and> \<not> headerRejected VALID_HOST_REGEX r ''x-forwarded-host''
      \<and> \<not> headerRejected VALID_PORT_REGEX r ''x-forwarded-port''
      \<and> headerRejected VALID_PROTO_REGEX r ''x-forwarded-proto'')
   \<and> (validateHeaders r = Inr () \<longleftrightarrow>
      \<not> headerRejected VALID_HOST_REGEX r ''host''
      \<and> \<not> headerRejected VALID_HOST_REGEX r ''x-forwarded-host''
      \<and> \<not> headerRejected VALID_PORT_REGEX r ''x-forwarded-port''
      \<and> \<not> headerRejected VALID_PROTO_REGEX r ''x-forwarded-proto'')
   \<and> (headerRejected VALID_HOST_REGEX r name \<longleftrightarrow>
        (\<exists>s. firstOf (originalGet (req_headers r) name) = Some s \<and> s \<noteq> []
           \<and> (\<exists>c\<in>set s. \<not> isHostChar c)))
   \<and> (headerRejected VALID_PORT_REGEX r name \<longleftrightarrow>
        (\<exists>s. firstOf (originalGet (req_headers r) name) = Some s \<and> s \<noteq> []
           \<and> (\<exists>c\<in>set s. \<not> isDigit c)))
   \<and> (headerRejected VALID_PROTO_REGEX r name \<longleftrightarrow>
        (\<exists>s. firstOf (originalGet (req_headers r) name) = Some s \<and> s \<noteq> []
           \<and> map canonicalize s \<noteq> ''HTTP'' \<and> map canonicalize s \<noteq> ''HTTPS''))"
proof -
  note d = messages_distinct messages_distinct [symmetric]
  have 1: "validateHeaders r = Inl (Error (msg_chars ''host'')) \<longleftrightarrow>
      headerRejected VALID_HOST_REGEX r ''host''"
    by (simp add: validateHeaders_steps d)
  have 2: "validateHeaders r = Inl (Error (msg_chars ''x-forwarded-host'')) \<longleftrightarrow>
      \<not> headerRejected VALID_HOST_REGEX r ''host''
      \<and> headerRejected VALID_HOST_REGEX r ''x-forwarded-host''"
    by (simp add: validateHeaders_steps d)
  have 3: "validateHeaders r = Inl (Error msg_port) \<longleftrightarrow>
      \<not> headerRejected VALID_HOST_REGEX r ''host''
      \<and> \<not> headerRejected VALID_HOST_REGEX r ''x-forwarded-host''
      \<and> headerRejected VALID_PORT_REGEX r ''x-forwarded-port''"
    by (simp add: validateHeaders_steps d)
  have 4: "validateHeaders r = Inl (Error msg_proto) \<longleftrightarrow>
      \<not> headerRejected VALID_HOST_REGEX r ''host''
      \<and> \<not> headerRejected VALID_HOST_REGEX r ''x-forwarded-host''
      \<and> \<not> headerRejected VALID_PORT_REGEX r ''x-forwarded-port''
      \<and> headerRejected VALID_PROTO_REGEX r ''x-forwarded-proto''"
    by (simp add: validateHeaders_steps d)
  have 5: "validateHeaders r = Inr () \<longleftrightarrow>
      \<not> headerRejected VALID_HOST_REGEX r ''host''
      \<and> \<not> headerRejected VALID_HOST_REGEX r ''x-forwarded-host''
      \<and> \<not> headerRejected VALID_PORT_REGEX r ''x-forwarded-port''
      \<and> \<not> headerRejected VALID_PROTO_REGEX r ''x-forwarded-proto''"
    by (simp add: validateHeaders_steps)
  have 6: "headerRejected VALID_HOST_REGEX r name \<longleftrightarrow>
        (\<exists>s. firstOf (originalGet (req_headers r) name) = Some s \<and> s \<noteq> []
           \<and> (\<exists>c\<in>set s. \<not> isHostChar c))"
    by (auto simp: headerRejected_def rejects_iff VALID_HOST_REGEX_def list_all_iff)
  have 7: "headerRejected VALID_PORT_REGEX r name \<longleftrightarrow>
        (\<exists>s. firstOf (originalGet (req_headers r) name) = Some s \<and> s \<noteq> []
           \<and> (\<exists>c\<in>set s. \<not> isDigit c))"
    by (auto simp: headerRejected_def rejects_iff VALID_PORT_REGEX_def list_all_iff)
  have 8: "headerRejected VALID_PROTO_REGEX r name \<longleftrightarrow>
        (\<exists>s. firstOf (originalGet (req_headers r) name) = Some s \<and> s \<noteq> []
           \<and> map canonicalize s \<noteq> ''HTTP'' \<and> map canonicalize s \<noteq> ''HTTPS'')"
    by (auto simp: headerRejected_def rejects_iff VALID_PROTO_REGEX_def)
  from 1 2 3 4 5 6 7 8 show ?thesis by blast
qed



theorem validateHeaders_spec_witness:
  "validateHeaders (mkRequest ''http://example.com/''
      [(''host'', ''example.com''), (''x-forwarded-port'', ''abc'')]) = Inl (Error msg_port)
   \<and> validateHeaders (mkRequest ''http://example.com/''
      [(''x-forwarded-port'', ''443''), (''x-forwarded-proto'', ''HTTP'')]) = Inr ()"
proof -
  let ?r = "mkRequest ''http://example.com/''
      [(''host'', ''example.com''), (''x-forwarded-port'', ''abc'')]"
  let ?q = "mkRequest ''http://example.com/''
      [(''x-forwarded-port'', ''443''), (''x-forwarded-proto'', ''HTTP'')]"
  have r: "\<not> headerRejected VALID_HOST_REGEX ?r ''host''"
    "\<not> headerRejected VALID_HOST_REGEX ?r ''x-forwarded-host''"
    "headerRejected VALID_PORT_REGEX ?r ''x-forwarded-port''"
    by code_simp+
  have q: "\<not> headerRejected VALID_HOST_REGEX ?q ''host''"
    "\<not> headerRejected VALID_HOST_REGEX ?q ''x-forwarded-host''"
    "\<not> headerRejected VALID_PORT_REGEX ?q ''x-forwarded-port''"
    "\<not> headerRejected VALID_PROTO_REGEX ?q ''x-forwarded-proto''"
    by code_simp+
  from r validateHeaders_spec [of ?r] have "validateHeaders ?r = Inl (Error msg_port)"
    by blast
  moreover from q validateHeaders_spec [of ?q] have "validateHeaders ?q = Inr ()"
    by blast
  ultimately show ?thesis by blast
qed

text \<open>
  Claim C8 as first stated has the port message thrown exactly when the first value of
  \<^verbatim>\<open>x-forwarded-port\<close> is present and not all digits. With \<^verbatim>\<open>host: example.com/bad\<close> and
  \<^verbatim>\<open>x-forwarded-port: abc\<close> the port value is not numeric, and the error thrown is the one
  naming \<^verbatim>\<open>host\<close>.
\<close>

theorem validateHeaders_order_counterexample:
  "headerRejected VALID_PORT_REGEX
     (mkRequest ''http://example.com/''
        [(''host'', ''example.com/bad''), (''x-forwarded-port'', ''abc'')])
     ''x-forwarded-port''
   \<and> validateHeaders
     (mkRequest ''http://example.com/''
        [(''host'', ''example.com/bad''), (''x-forwarded-port'', ''abc'')])
     = Inl (Error ''Header \"host\" contains characters that are not allowed.'')
   \<and> validateHeaders
     (mkRequest ''http://example.com/''
        [(''host'', ''example.com/bad''), (''x-forwarded-port'', ''abc'')])
     \<noteq> Inl (Error ''Header \"x-forwarded-port\" must be a numeric value.'')"
  by code_simp

text \<open>
  Claim C1. \<open>validateHeaders\<close> is to throw when the first value of \<^verbatim>\<open>x-forwarded-prefix\<close>
  begins with two or more slashes or backslashes or has a \<^verbatim>\<open>.\<close> or \<^verbatim>\<open>..\<close> path segment. The
  function never reads that header: on \<^verbatim>\<open>//evil\<close> and on \<^verbatim>\<open>/../\<close> it returns without an
  error, and so does \<open>validateRequest\<close>.
\<close>

theorem validateHeaders_prefix_unchecked:
  "validateHeaders (mkRequest ''https://example.com/'' [(''x-forwarded-prefix'', ''//evil'')])
     = Inr ()
   \<and> validateHeaders (mkRequest ''https://example.com/'' [(''x-forwarded-prefix'', ''/../'')])
     = Inr ()
   \<and> validateRequest exampleURL
       (mkRequest ''https://example.com/'' [(''x-forwarded-prefix'', ''//evil'')])
       [''example.com''] = Inr ()"
  by code_simp

text \<open>
  Claim C2. \<open>validateRequest\<close> is to skip the hostname check of the URL when its third
  argument \<^verbatim>\<open>disableHostCheck\<close> is true. The function has two parameters (a third argument
  of a call is dropped) and always runs \<open>validateUrl\<close>: the request for
  \<^verbatim>\<open>http://evil.com\<close> with no headers is refused under the allowlist of \<^verbatim>\<open>example.com\<close>.
\<close>

theorem validateRequest_always_checks_host:
  "validateRequest exampleURL (mkRequest ''http://evil.com/'' []) [''example.com'']
   = Inl (Error ''URL with hostname \"evil.com\" is not allowed.'')"
  by code_simp

section \<open>The lazy guard: point lookup and the error signal\<close>

lemma validateHeader_skip:
  "v = None \<or> v = Some [] \<or> \<not> sensitive name \<Longrightarrow>
     validateHeader parseURL name v allowed g = (Inr (), g)"
  by (auto simp: validateHeader_def sensitive_def split: option.splits)

lemma validateHeader_check:
  "sensitive name \<Longrightarrow> s \<noteq> [] \<Longrightarrow>
     validateHeader parseURL name (Some s) allowed g =
       (case verifyHostAllowed parseURL name s allowed of
          Inr _ \<Rightarrow> (Inr (), g)
        | Inl e \<Rightarrow> (Inl (thrown e g), afterThrow e g))"
  by (simp add: validateHeader_def sensitive_def thrown_def afterThrow_def Let_def
      split: sum.splits)

lemma verifyHostAllowed_first:
  "getFirstHeaderValue (Some (Str raw)) = Some fv \<Longrightarrow>
     verifyHostAllowed parseURL name raw allowed =
       (if fv = [] then Inr ()
        else case parseURL (''http://'' @ fv) of
               None \<Rightarrow> Inl (Error (msg_unparsable name))
             | Some u \<Rightarrow> if isHostAllowed (hostname u) allowed then Inr ()
                         else Inl (Error (msg_not_allowed name fv)))"
  by (simp add: verifyHostAllowed_def split: option.splits)

lemma onErrorPromise_afterThrow:
  "onErrorPromise (afterThrow e g) =
     (case onErrorPromise g of None \<Rightarrow> Some (thrown e g) | Some e0 \<Rightarrow> Some e0)"
  by (simp add: afterThrow_def onError_def thrown_def split: option.splits)

lemma patched_get_skip:
  "\<not> truthy (originalGet (clonedHeaders g) name) \<or> \<not> sensitive name \<Longrightarrow>
     patched_get parseURL name g = (Inr (originalGet (clonedHeaders g) name), g)"
  by (auto simp: patched_get_def Let_def validateHeader_skip)

lemma patched_get_check:
  "sensitive name \<Longrightarrow> originalGet (clonedHeaders g) name = Some raw \<Longrightarrow> raw \<noteq> [] \<Longrightarrow>
     patched_get parseURL name g =
       (case verifyHostAllowed parseURL name raw (allowedHosts g) of
          Inr _ \<Rightarrow> (Inr (Some raw), g)
        | Inl e \<Rightarrow> (Inl (thrown e g), afterThrow e g))"
  by (simp add: patched_get_def Let_def truthy_def validateHeader_check split: sum.splits)

text \<open>
  Claim C4, as amended. On a guarded request, for a \<open>name\<close> that is a header name,
  \<open>get(name)\<close> returns the stored value unchanged and leaves the state as it was when the
  value is absent or empty or when \<open>name\<close> is not sensitive. When \<open>name\<close> is sensitive and the
  value is present, it takes the first value; when that is empty it returns the stored
  value, again with no check; when it is not empty it builds the URL \<^verbatim>\<open>http://<value>\<close>,
  throws the "cannot be parsed" error if the URL does not parse, and otherwise throws the
  "is not allowed" error exactly when the parsed hostname fails the allowlist. Whenever it
  throws, the error thrown is the one handed to the error signal, which it settles if it
  was pending. (On a \<open>name\<close> that is not a header name the platform's own \<open>get\<close> throws before
  any of this; the statement is silent there.)
\<close>

theorem patched_get_spec:
  assumes "isHeaderName name"
  shows "(\<not> truthy (originalGet (clonedHeaders g) name) \<or> \<not> sensitive name \<longrightarrow>
      patched_get parseURL name g = (Inr (originalGet (clonedHeaders g) name), g))
   \<and> (sensitive name \<and> originalGet (clonedHeaders g) name = Some raw \<and> raw \<noteq> []
        \<and> getFirstHeaderValue (Some (Str raw)) = Some fv \<longrightarrow>
      (fv = [] \<longrightarrow> patched_get parseURL name g = (Inr (Some raw), g))
      \<and> (fv \<noteq> [] \<and> parseURL (''http://'' @ fv) = None \<longrightarrow>
           patched_get parseURL name g =
             (Inl (thrown (Error (msg_unparsable name)) g),
              afterThrow (Error (msg_unparsable name)) g))
      \<and> (fv \<noteq> [] \<and> parseURL (''http://'' @ fv) = Some u \<longrightarrow>
           (if isHostAllowed (hostname u) (allowedHosts g)
            then patched_get parseURL name g = (Inr (Some raw), g)
            else patched_get parseURL name g =
              (Inl (thrown (Error (msg_not_allowed name fv)) g),
               afterThrow (Error (msg_not_allowed name fv)) g))))
   \<and> onErrorPromise (afterThrow e g) =
        (case onErrorPromise g of None \<Rightarrow> Some (thrown e g) | Some e0 \<Rightarrow> Some e0)"
proof -
  have 1: "\<not> truthy (originalGet (clonedHeaders g) name) \<or> \<not> sensitive name \<longrightarrow>
      patched_get parseURL name g = (Inr (originalGet (clonedHeaders g) name), g)"
    using patched_get_skip by blast
  have 2: "sensitive name \<and> originalGet (clonedHeaders g) name = Some raw \<and> raw \<noteq> []
        \<and> getFirstHeaderValue (Some (Str raw)) = Some fv \<longrightarrow>
      (fv = [] \<longrightarrow> patched_get parseURL name g = (Inr (Some raw), g))
      \<and> (fv \<noteq> [] \<and> parseURL (''http://'' @ fv) = None \<longrightarrow>
           patched_get parseURL name g =
             (Inl (thrown (Error (msg_unparsable name)) g),
              afterThrow (Error (msg_unparsable name)) g))
      \<and> (fv \<noteq> [] \<and> parseURL (''http://'' @ fv) = Some u \<longrightarrow>
           (if isHostAllowed (hostname u) (allowedHosts g)
            then patched_get parseURL name g = (Inr (Some raw), g)
            else patched_get parseURL name g =
              (Inl (thrown (Error (msg_not_allowed name fv)) g),
               afterThrow (Error (msg_not_allowed name fv)) g)))"
    by (simp add: patched_get_check verifyHostAllowed_first)
  from 1 2 onErrorPromise_afterThrow [of e g] show ?thesis by blast
qed

theorem patched_get_spec_witness:
  "isHeaderName ''accept'' \<and> isHeaderName ''Host'' \<and> isHeaderName ''host''
   \<and> patched_get exampleURL ''accept'' evilGuard = (Inr (Some ''application/json''), evilGuard)
   \<and> fst (patched_get exampleURL ''Host'' evilGuard)
       = Inl (0, Error ''Header \"Host\" with value \"evil.com\" is not allowed.'')
   \<and> onErrorPromise (snd (patched_get exampleURL ''Host'' evilGuard))
       = Some (0, Error ''Header \"Host\" with value \"evil.com\" is not allowed.'')
   \<and> fst (patched_get exampleURL ''host'' badGuard)
       = Inl (0, Error ''Header \"host\" contains an invalid value and cannot be parsed.'')
   \<and> patched_get exampleURL ''host'' commaGuard = (Inr (Some '', evil.com''), commaGuard)"
proof -
  have n: "isHeaderName ''accept''" "isHeaderName ''Host''" "isHeaderName ''host''"
    by code_simp+
  have a: "\<not> sensitive ''accept''"
    "originalGet (clonedHeaders evilGuard) ''accept'' = Some ''application/json''"
    by code_simp+
  have b: "sensitive ''Host''" "originalGet (clonedHeaders evilGuard) ''Host'' = Some ''evil.com''"
    "''evil.com'' \<noteq> []" "getFirstHeaderValue (Some (Str ''evil.com'')) = Some ''evil.com''"
    "exampleURL (''http://'' @ ''evil.com'') = Some \<lparr>hostname = ''evil.com''\<rparr>"
    "\<not> isHostAllowed (hostname \<lparr>hostname = ''evil.com''\<rparr>) (allowedHosts evilGuard)"
    by code_simp+
  have c: "thrown (Error (msg_not_allowed ''Host'' ''evil.com'')) evilGuard
            = (0, Error ''Header \"Host\" with value \"evil.com\" is not allowed.'')"
    "onErrorPromise evilGuard = None"
    by code_simp+
  have d: "sensitive ''host''" "originalGet (clonedHeaders badGuard) ''host'' = Some ''bad host''"
    "''bad host'' \<noteq> []" "getFirstHeaderValue (Some (Str ''bad host'')) = Some ''bad host''"
    "exampleURL (''http://'' @ ''bad host'') = None"
    "thrown (Error (msg_unparsable ''host'')) badGuard
       = (0, Error ''Header \"host\" contains an invalid value and cannot be parsed.'')"
    by code_simp+
  have e: "originalGet (clonedHeaders commaGuard) ''host'' = Some '', evil.com''"
    "'', evil.com'' \<noteq> []" "getFirstHeaderValue (Some (Str '', evil.com'')) = Some []"
    by code_simp+
  from a patched_get_spec [OF n(1), where g = evilGuard and parseURL = exampleURL]
  have 1: "patched_get exampleURL ''accept'' evilGuard = (Inr (Some ''application/json''), evilGuard)"
    by simp
  from b patched_get_spec [OF n(2), where g = evilGuard and parseURL = exampleURL
      and raw = "''evil.com''" and fv = "''evil.com''" and u = "\<lparr>hostname = ''evil.com''\<rparr>"
      and e = "Error (msg_not_allowed ''Host'' ''evil.com'')"]
  have 2: "patched_get exampleURL ''Host'' evilGuard =
        (Inl (thrown (Error (msg_not_allowed ''Host'' ''evil.com'')) evilGuard),
         afterThrow (Error (msg_not_allowed ''Host'' ''evil.com'')) evilGuard)"
    and 3: "onErrorPromise (afterThrow (Error (msg_not_allowed ''Host'' ''evil.com'')) evilGuard) =
        (case onErrorPromise evilGuard of
           None \<Rightarrow> Some (thrown (Error (msg_not_allowed ''Host'' ''evil.com'')) evilGuard)
         | Some e0 \<Rightarrow> Some e0)"
    by simp_all
  from d patched_get_spec [OF n(3), where g = badGuard and parseURL = exampleURL
      and raw = "''bad host''" and fv = "''bad host''"]
  have 4: "fst (patched_get exampleURL ''host'' badGuard)
       = Inl (0, Error ''Header \"host\" contains an invalid value and cannot be parsed.'')"
    by simp
  from d(1) e patched_get_spec [OF n(3), where g = commaGuard and parseURL = exampleURL
      and raw = "'', evil.com''" and fv = "[]"]
  have 5: "patched_get exampleURL ''host'' commaGuard = (Inr (Some '', evil.com''), commaGuard)"
    by simp
  from n 1 2 3 4 5 c show ?thesis by simp
qed

text \<open>
  Claim C4 as first stated has every present value of a sensitive header lead to the
  synthetic URL and to an error when that URL does not parse. The stored value
  \<^verbatim>\<open>, evil.com\<close> of \<^verbatim>\<open>host\<close> has the empty first value, the URL \<^verbatim>\<open>http://\<close> does not parse,
  and \<open>get\<close> returns the stored value with no error.
\<close>

theorem patched_get_empty_first_counterexample:
  "isHeaderName ''host'' \<and> sensitive ''host''
   \<and> originalGet (clonedHeaders commaGuard) ''host'' = Some '', evil.com''
   \<and> getFirstHeaderValue (Some (Str '', evil.com'')) = Some []
   \<and> exampleURL (''http://'' @ []) = None
   \<and> patched_get exampleURL ''host'' commaGuard = (Inr (Some '', evil.com''), commaGuard)"
proof -
  have a: "sensitive ''host''"
    "originalGet (clonedHeaders commaGuard) ''host'' = Some '', evil.com''"
    "getFirstHeaderValue (Some (Str '', evil.com'')) = Some []"
    "exampleURL (''http://'' @ []) = None"
    "isHeaderName ''host''"
    by code_simp+
  then have "verifyHostAllowed exampleURL ''host'' '', evil.com'' (allowedHosts commaGuard) = Inr ()"
    by (simp add: verifyHostAllowed_first)
  with a have "patched_get exampleURL ''host'' commaGuard = (Inr (Some '', evil.com''), commaGuard)"
    by (simp add: patched_get_check)
  with a show ?thesis by blast
qed

lemma validateHeader_settles:
  "validateHeader parseURL name v allowed g = (r, g') \<Longrightarrow>
     (case r of
        Inr _ \<Rightarrow> g' = g
      | Inl e \<Rightarrow> settles g (Some e) g' \<and> clonedHeaders g' = clonedHeaders g
                 \<and> allowedHosts g' = allowedHosts g)"
  by (auto simp: validateHeader_def settles_def onError_def Let_def
      split: option.splits if_splits sum.splits)

lemma valuesLoop_settles:
  "valuesLoop parseURL names g = (r, g') \<Longrightarrow>
     settles g (case r of Inl e \<Rightarrow> Some e | Inr _ \<Rightarrow> None) g' \<and> clonedHeaders g' = clonedHeaders g"
proof (induction names arbitrary: g)
  case Nil
  then show ?case by (auto simp: settles_def)
next
  case (Cons name rest)
  obtain r1 g1 where v: "validateHeader parseURL name (originalGet (clonedHeaders g) name)
      (allowedHosts g) g = (r1, g1)"
    by (cases "validateHeader parseURL name (originalGet (clonedHeaders g) name) (allowedHosts g) g")
  show ?case
  proof (cases r1)
    case (Inl e)
    with Cons.prems v validateHeader_settles [OF v] show ?thesis by auto
  next
    case (Inr u)
    with v validateHeader_settles [OF v] have "g1 = g" by simp
    with Cons.prems v Inr have "valuesLoop parseURL rest g = (r, g')" by simp
    then show ?thesis by (rule Cons.IH)
  qed
qed

lemma perform_settles: "perform parseURL a g = (r, g') \<Longrightarrow> settles g r g'"
proof (cases a)
  case (Get name)
  assume p: "perform parseURL a g = (r, g')"
  show ?thesis
  proof (cases "truthy (originalGet (clonedHeaders g) name)")
    case False
    with p Get show ?thesis by (auto simp: patched_get_def settles_def)
  next
    case True
    obtain r1 g1 where v: "validateHeader parseURL name (originalGet (clonedHeaders g) name)
        (allowedHosts g) g = (r1, g1)"
      by (cases "validateHeader parseURL name (originalGet (clonedHeaders g) name) (allowedHosts g) g")
    from validateHeader_settles [OF v] p Get True v show ?thesis
      by (cases r1) (auto simp: patched_get_def settles_def)
  qed
next
  case Values
  assume p: "perform parseURL a g = (r, g')"
  obtain r1 g1 where v: "valuesLoop parseURL HOST_HEADERS_TO_VALIDATE g = (r1, g1)"
    by (cases "valuesLoop parseURL HOST_HEADERS_TO_VALIDATE g")
  from valuesLoop_settles [OF v] p Values v show ?thesis
    by (cases r1) (auto simp: patched_values_def)
next
  case Entries
  assume "perform parseURL a g = (r, g')"
  with Entries show ?thesis by (auto simp: patched_entries_def settles_def)
next
  case (Next i)
  assume p: "perform parseURL a g = (r, g')"
  show ?thesis
  proof (cases "length (iterators g) \<le> i")
    case True
    with p Next show ?thesis by (auto simp: patched_next_def settles_def)
  next
    case False
    show ?thesis
    proof (cases "iterators g ! i")
      case Nil
      with p Next False show ?thesis by (auto simp: patched_next_def settles_def)
    next
      case (Cons kv rest)
      obtain k w where kv: "kv = (k, w)" by (cases kv)
      obtain r1 g1 where v: "validateHeader parseURL k (Some w) (allowedHosts g)
          (g\<lparr>iterators := (iterators g)[i := rest]\<rparr>) = (r1, g1)"
        by (cases "validateHeader parseURL k (Some w) (allowedHosts g)
          (g\<lparr>iterators := (iterators g)[i := rest]\<rparr>)")
      from validateHeader_settles [OF v] p Next False Cons kv v show ?thesis
        by (cases r1) (auto simp: patched_next_def settles_def)
    qed
  qed
qed

lemma run_settles:
  "run parseURL accesses g = (rs, g') \<Longrightarrow>
     onErrorPromise g' = (case onErrorPromise g of None \<Rightarrow> firstThrown rs | Some e0 \<Rightarrow> Some e0)
     \<and> created g \<le> created g'
     \<and> (\<forall>e\<in>set (errorsOf rs). created g \<le> fst e \<and> fst e < created g')
     \<and> distinct (map fst (errorsOf rs))"
proof (induction accesses arbitrary: g rs g')
  case Nil
  then show ?case by (auto split: option.splits)
next
  case (Cons a rest)
  obtain r g1 where p: "perform parseURL a g = (r, g1)" by (cases "perform parseURL a g")
  obtain rs1 g2 where q: "run parseURL rest g1 = (rs1, g2)" by (cases "run parseURL rest g1")
  from Cons.prems p q have rs: "rs = r # rs1" and g': "g' = g2" by auto
  note ih = Cons.IH [OF q]
  note st = perform_settles [OF p]
  show ?case
  proof (cases r)
    case None
    with st ih rs g' show ?thesis by (auto simp: settles_def split: option.splits)
  next
    case (Some e)
    with st have e: "fst e = created g" "created g1 = Suc (created g)"
      "onErrorPromise g1 = (case onErrorPromise g of None \<Rightarrow> Some e | Some e0 \<Rightarrow> Some e0)"
      by (auto simp: settles_def)
    from ih e have "fst e \<notin> fst ` set (errorsOf rs1)" by fastforce
    with ih e Some rs g' show ?thesis by (auto split: option.splits)
  qed
qed


lemma firstThrown_errorsOf:
  "firstThrown rs = (case errorsOf rs of [] \<Rightarrow> None | e # _ \<Rightarrow> Some e)"
  by (induction rs rule: firstThrown.induct) auto

lemma validateHeader_promise:
  "validateHeader parseURL name v allowed (g\<lparr>onErrorPromise := p\<rparr>) =
     (case validateHeader parseURL name v allowed g of
        (Inr u, g') \<Rightarrow> (Inr u, g'\<lparr>onErrorPromise := p\<rparr>)
      | (Inl e, g') \<Rightarrow>
          (Inl e, g'\<lparr>onErrorPromise := (case p of None \<Rightarrow> Some e | Some e0 \<Rightarrow> Some e0)\<rparr>))"
  by (auto simp: validateHeader_def onError_def Let_def
      split: option.splits if_splits sum.splits)

lemma valuesLoop_promise:
  "fst (valuesLoop parseURL names (g\<lparr>onErrorPromise := p\<rparr>)) = fst (valuesLoop parseURL names g)"
proof (induction names arbitrary: g)
  case Nil
  show ?case by simp
next
  case (Cons name rest)
  obtain r1 g1 where v: "validateHeader parseURL name (originalGet (clonedHeaders g) name)
      (allowedHosts g) g = (r1, g1)"
    by (cases "validateHeader parseURL name (originalGet (clonedHeaders g) name) (allowedHosts g) g")
  show ?case
  proof (cases r1)
    case (Inl e)
    with v show ?thesis by (simp add: validateHeader_promise)
  next
    case (Inr u)
    with v validateHeader_settles [OF v] have "g1 = g" by simp
    with v Inr Cons.IH [of g] show ?thesis by (simp add: validateHeader_promise)
  qed
qed

lemma validateHeader_fst:
  "created g2 = created g \<Longrightarrow>
     fst (validateHeader parseURL name v allowed g2) = fst (validateHeader parseURL name v allowed g)"
  by (auto simp: validateHeader_def Let_def split: option.splits if_splits sum.splits)

lemma fst_rethrow:
  "fst (case x of (Inl e, g') \<Rightarrow> (Inl e, g') | (Inr u, g') \<Rightarrow> (Inr c, g'))
     = (case fst x of Inl e \<Rightarrow> Inl e | Inr u \<Rightarrow> Inr c)"
  by (auto split: prod.splits sum.splits)

lemma fst_thrown:
  "fst (case x of (Inl e, g') \<Rightarrow> (Some e, g') | (Inr u, g') \<Rightarrow> (None, g'))
     = (case fst x of Inl e \<Rightarrow> Some e | Inr u \<Rightarrow> None)"
  by (auto split: prod.splits sum.splits)

lemma patched_next_fst:
  "fst (patched_next parseURL i (g\<lparr>onErrorPromise := p\<rparr>)) = fst (patched_next parseURL i g)"
proof (cases "length (iterators g) \<le> i")
  case True
  then show ?thesis by (simp add: patched_next_def)
next
  case False
  show ?thesis
  proof (cases "iterators g ! i")
    case Nil
    with False show ?thesis by (simp add: patched_next_def)
  next
    case (Cons kv rest)
    obtain k w where kv: "kv = (k, w)" by (cases kv)
    have "fst (validateHeader parseURL k (Some w) (allowedHosts g)
             (g\<lparr>onErrorPromise := p, iterators := (iterators g)[i := rest]\<rparr>))
        = fst (validateHeader parseURL k (Some w) (allowedHosts g)
             (g\<lparr>iterators := (iterators g)[i := rest]\<rparr>))"
      by (rule validateHeader_fst) simp
    with False Cons kv show ?thesis
      by (simp add: patched_next_def fst_rethrow)
  qed
qed

lemma patched_get_fst:
  "fst (patched_get parseURL name (g\<lparr>onErrorPromise := p\<rparr>)) = fst (patched_get parseURL name g)"
proof -
  have "fst (validateHeader parseURL name (originalGet (clonedHeaders g) name) (allowedHosts g)
             (g\<lparr>onErrorPromise := p\<rparr>))
        = fst (validateHeader parseURL name (originalGet (clonedHeaders g) name) (allowedHosts g) g)"
    by (rule validateHeader_fst) simp
  then show ?thesis
    by (simp add: patched_get_def Let_def fst_rethrow)
qed

lemma perform_promise:
  "fst (perform parseURL a (g\<lparr>onErrorPromise := p\<rparr>)) = fst (perform parseURL a g)"
proof (cases a)
  case (Get name)
  then show ?thesis by (simp add: fst_thrown patched_get_fst)
next
  case Values
  obtain r1 g1 where v1: "valuesLoop parseURL HOST_HEADERS_TO_VALIDATE g = (r1, g1)"
    by (cases "valuesLoop parseURL HOST_HEADERS_TO_VALIDATE g")
  obtain r2 g2 where v2:
    "valuesLoop parseURL HOST_HEADERS_TO_VALIDATE (g\<lparr>onErrorPromise := p\<rparr>) = (r2, g2)"
    by (cases "valuesLoop parseURL HOST_HEADERS_TO_VALIDATE (g\<lparr>onErrorPromise := p\<rparr>)")
  from v1 v2 valuesLoop_promise [where g = g and p = p and names = HOST_HEADERS_TO_VALIDATE
      and parseURL = parseURL] have "r2 = r1"
    by simp
  with Values v1 v2 show ?thesis
    by (cases r1) (simp_all add: patched_values_def)
next
  case Entries
  then show ?thesis by simp
next
  case (Next i)
  then show ?thesis by (simp add: fst_thrown patched_next_fst)
qed

text \<open>
  Claim C5. Across any sequence of accesses on one guarded request the error signal is
  settled at most once, with the error object of the first access that throws: after the
  run it holds the first error thrown, and nothing when no access threw; the error
  objects thrown are pairwise distinct objects, so it is the first one itself that the
  signal holds; once settled, no later access changes it; and what an access throws does not
  depend on whether the signal is settled.
\<close>

theorem onErrorPromise_single_assignment:
  assumes "run parseURL accesses (cloneRequestAndPatchHeaders request allowed) = (rs, g)"
  shows "onErrorPromise g = firstThrown rs
    \<and> (firstThrown rs = None \<longleftrightarrow> errorsOf rs = [])
    \<and> distinct (map fst (errorsOf rs))
    \<and> (onErrorPromise g = Some e \<longrightarrow> onErrorPromise (snd (run parseURL later g)) = Some e)
    \<and> fst (perform parseURL a g) = fst (perform parseURL a (g\<lparr>onErrorPromise := None\<rparr>))"
proof -
  have init: "onErrorPromise (cloneRequestAndPatchHeaders request allowed) = None"
    by (simp add: cloneRequestAndPatchHeaders_def)
  from run_settles [OF assms] init have 1: "onErrorPromise g = firstThrown rs"
    and 3: "distinct (map fst (errorsOf rs))"
    by simp_all
  have 2: "firstThrown rs = None \<longleftrightarrow> errorsOf rs = []"
    by (simp add: firstThrown_errorsOf split: list.splits)
  have 4: "onErrorPromise g = Some e \<longrightarrow> onErrorPromise (snd (run parseURL later g)) = Some e"
  proof
    assume e: "onErrorPromise g = Some e"
    obtain rs' g' where r: "run parseURL later g = (rs', g')" by (cases "run parseURL later g")
    from run_settles [OF r] e have "onErrorPromise g' = Some e" by simp
    with r show "onErrorPromise (snd (run parseURL later g)) = Some e" by simp
  qed
  have 5: "fst (perform parseURL a g) = fst (perform parseURL a (g\<lparr>onErrorPromise := None\<rparr>))"
    by (simp only: perform_promise)
  from 1 2 3 4 5 show ?thesis by blast
qed

theorem onErrorPromise_single_assignment_witness:
  "fst (run exampleURL [Get ''accept'', Get ''host'', Values, Get ''Host''] evilGuard)
     = [None,
        Some (0, Error ''Header \"host\" with value \"evil.com\" is not allowed.''),
        Some (1, Error ''Header \"host\" with value \"evil.com\" is not allowed.''),
        Some (2, Error ''Header \"Host\" with value \"evil.com\" is not allowed.'')]
   \<and> onErrorPromise (snd (run exampleURL [Get ''accept'', Get ''host'', Values, Get ''Host''] evilGuard))
     = Some (0, Error ''Header \"host\" with value \"evil.com\" is not allowed.'')"
proof -
  let ?as = "[Get ''accept'', Get ''host'', Values, Get ''Host'']"
  have a: "fst (run exampleURL ?as evilGuard)
     = [None,
        Some (0, Error ''Header \"host\" with value \"evil.com\" is not allowed.''),
        Some (1, Error ''Header \"host\" with value \"evil.com\" is not allowed.''),
        Some (2, Error ''Header \"Host\" with value \"evil.com\" is not allowed.'')]"
    by code_simp
  have "run exampleURL ?as (cloneRequestAndPatchHeaders
      (mkRequest ''http://example.com/'' [(''accept'', ''application/json''), (''host'', ''evil.com'')])
      [''example.com'', ''*.valid.com''])
     = (fst (run exampleURL ?as evilGuard), snd (run exampleURL ?as evilGuard))"
    by (simp add: evilGuard_def)
  from onErrorPromise_single_assignment [OF this]
  have "onErrorPromise (snd (run exampleURL ?as evilGuard)) = firstThrown (fst (run exampleURL ?as evilGuard))"
    by blast
  with a show ?thesis by simp
qed

section \<open>The lazy guard: enumeration\<close>

lemma validateHeader_headerCheck:
  "validateHeader parseURL k (Some v) allowed g =
     (case headerCheck parseURL allowed (k, v) of
        None \<Rightarrow> (Inr (), g)
      | Some e \<Rightarrow> (Inl (thrown e g), afterThrow e g))"
proof (cases "sensitive k \<and> v \<noteq> []")
  case True
  then show ?thesis
    by (simp add: validateHeader_check headerCheck_def split: sum.splits)
next
  case False
  then have "validateHeader parseURL k (Some v) allowed g = (Inr (), g)"
    by (intro validateHeader_skip) auto
  with False show ?thesis by (auto simp: headerCheck_def)
qed

lemma validateHeader_presentCheck:
  "validateHeader parseURL name (originalGet (clonedHeaders g) name) (allowedHosts g) g =
     (case presentCheck parseURL g name of
        None \<Rightarrow> (Inr (), g)
      | Some e \<Rightarrow> (Inl (thrown e g), afterThrow e g))"
proof (cases "originalGet (clonedHeaders g) name")
  case None
  then show ?thesis by (simp add: presentCheck_def validateHeader_skip)
next
  case (Some v)
  then show ?thesis by (simp add: presentCheck_def validateHeader_headerCheck)
qed

lemma patched_values_checks:
  "patched_values parseURL g =
     (case presentCheck parseURL g ''host'' of
        Some e \<Rightarrow> (Inl (thrown e g), afterThrow e g)
      | None \<Rightarrow>
          (case presentCheck parseURL g ''x-forwarded-host'' of
             Some e \<Rightarrow> (Inl (thrown e g), afterThrow e g)
           | None \<Rightarrow> (Inr (originalValues (clonedHeaders g)), g)))"
  by (simp add: patched_values_def HOST_HEADERS_TO_VALIDATE_def validateHeader_presentCheck
      split: option.splits)

lemma thrown_iterators: "thrown e (g\<lparr>iterators := its\<rparr>) = thrown e g"
  by (simp add: thrown_def)

lemma patched_next_step:
  "i < length (iterators g) \<Longrightarrow> iterators g ! i = kv # rest \<Longrightarrow>
     patched_next parseURL i g =
       (case headerCheck parseURL (allowedHosts g) kv of
          None \<Rightarrow> (Inr (Some kv), g\<lparr>iterators := (iterators g)[i := rest]\<rparr>)
        | Some e \<Rightarrow> (Inl (thrown e g), afterThrow e (g\<lparr>iterators := (iterators g)[i := rest]\<rparr>)))"
  by (cases kv)
     (simp add: patched_next_def validateHeader_headerCheck thrown_iterators split: option.splits)

lemma patched_next_done:
  "length (iterators g) \<le> i \<or> iterators g ! i = [] \<Longrightarrow> patched_next parseURL i g = (Inr None, g)"
  by (auto simp: patched_next_def)

lemma patched_next_yield:
  "patched_next parseURL i g = (Inr (Some kv), g') \<Longrightarrow>
     headerCheck parseURL (allowedHosts g) kv = None"
proof (cases "length (iterators g) \<le> i \<or> iterators g ! i = []")
  case True
  assume "patched_next parseURL i g = (Inr (Some kv), g')"
  with patched_next_done [OF True] show ?thesis by simp
next
  case False
  assume p: "patched_next parseURL i g = (Inr (Some kv), g')"
  from False obtain kv' rest where c: "i < length (iterators g)" "iterators g ! i = kv' # rest"
    by (cases "iterators g ! i") auto
  from p patched_next_step [OF c] show ?thesis
    by (cases "headerCheck parseURL (allowedHosts g) kv'") auto
qed

lemma forOf_traversal:
  "i < length (iterators g) \<Longrightarrow> iterators g ! i = todo \<Longrightarrow>
     fst (forOf parseURL i g) =
       (map_option (\<lambda>e. thrown e g) (firstFailure parseURL (allowedHosts g) todo),
        takeWhile (\<lambda>kv. headerCheck parseURL (allowedHosts g) kv = None) todo)"
proof (induction todo arbitrary: g)
  case Nil
  then have "patched_next parseURL i g = (Inr None, g)" by (intro patched_next_done) simp
  then show ?case by (subst forOf.simps) simp
next
  case (Cons kv rest)
  note step = patched_next_step [OF Cons.prems]
  show ?case
  proof (cases "headerCheck parseURL (allowedHosts g) kv")
    case (Some e)
    with step show ?thesis by (subst forOf.simps) simp
  next
    case None
    let ?g = "g\<lparr>iterators := (iterators g)[i := rest]\<rparr>"
    from None step have n: "patched_next parseURL i g = (Inr (Some kv), ?g)" by simp
    from Cons.prems have "i < length (iterators ?g)" "iterators ?g ! i = rest" by simp_all
    from Cons.IH [OF this] have ih: "fst (forOf parseURL i ?g) =
       (map_option (\<lambda>e. thrown e g) (firstFailure parseURL (allowedHosts g) rest),
        takeWhile (\<lambda>kv. headerCheck parseURL (allowedHosts g) kv = None) rest)"
      by (simp add: thrown_iterators)
    obtain r kvs g2 where f: "forOf parseURL i ?g = ((r, kvs), g2)"
      by (cases "forOf parseURL i ?g") auto
    have "forOf parseURL i g = ((r, kv # kvs), g2)"
      by (subst forOf.simps) (simp add: n f)
    with ih f None show ?thesis by simp
  qed
qed

lemma forOf_entries:
  "fst (forOf parseURL (fst (patched_entries g)) (snd (patched_entries g))) =
     (map_option (\<lambda>e. thrown e g) (firstFailure parseURL (allowedHosts g) (clonedHeaders g)),
      takeWhile (\<lambda>kv. headerCheck parseURL (allowedHosts g) kv = None) (clonedHeaders g))"
proof -
  let ?g = "snd (patched_entries g)"
  let ?i = "fst (patched_entries g)"
  have "?i < length (iterators ?g)" "iterators ?g ! ?i = clonedHeaders g"
    by (simp_all add: patched_entries_def originalEntries_def)
  from forOf_traversal [OF this, of parseURL] show ?thesis
    by (simp add: patched_entries_def thrown_def)
qed

lemma firstFailure_Some:
  "firstFailure parseURL allowed todo = Some e \<Longrightarrow>
     \<exists>pre kv post. todo = pre @ kv # post
       \<and> takeWhile (\<lambda>kv. headerCheck parseURL allowed kv = None) todo = pre
       \<and> headerCheck parseURL allowed kv = Some e"
proof (induction todo)
  case Nil
  then show ?case by simp
next
  case (Cons kv rest)
  show ?case
  proof (cases "headerCheck parseURL allowed kv")
    case None
    with Cons.prems have "firstFailure parseURL allowed rest = Some e" by simp
    from Cons.IH [OF this] obtain pre kv' post where
      "rest = pre @ kv' # post"
      "takeWhile (\<lambda>kv. headerCheck parseURL allowed kv = None) rest = pre"
      "headerCheck parseURL allowed kv' = Some e" by blast
    with None have "kv # rest = (kv # pre) @ kv' # post
       \<and> takeWhile (\<lambda>kv. headerCheck parseURL allowed kv = None) (kv # rest) = kv # pre
       \<and> headerCheck parseURL allowed kv' = Some e" by simp
    then show ?thesis by blast
  next
    case (Some e')
    with Cons.prems have "e' = e" by simp
    with Some have "kv # rest = [] @ kv # rest
       \<and> takeWhile (\<lambda>kv. headerCheck parseURL allowed kv = None) (kv # rest) = []
       \<and> headerCheck parseURL allowed kv = Some e" by simp
    then show ?thesis by blast
  qed
qed

lemma firstFailure_None:
  "firstFailure parseURL allowed todo = None \<Longrightarrow>
     takeWhile (\<lambda>kv. headerCheck parseURL allowed kv = None) todo = todo"
  by (induction todo) (auto split: option.splits)


text \<open>
  Claim C6, as amended. On a guarded request \<open>values()\<close> checks \<^verbatim>\<open>host\<close> and then
  \<^verbatim>\<open>x-forwarded-host\<close>, each when it is present, before it produces the enumeration, and
  throws at the first that fails. \<open>entries()\<close> and default iteration are the same function;
  each \<open>next()\<close> checks its pair before returning it, so a pair is returned only if it passes
  and a failing pair makes the call throw; and a traversal that stops at the first throw (a
  \<^verbatim>\<open>for ... of\<close> loop) sees exactly the pairs before the first failing one, and that pair's
  error.
\<close>

theorem guarded_enumeration_spec:
  "patched_values parseURL g =
     (case presentCheck parseURL g ''host'' of
        Some e \<Rightarrow> (Inl (thrown e g), afterThrow e g)
      | None \<Rightarrow>
          (case presentCheck parseURL g ''x-forwarded-host'' of
             Some e \<Rightarrow> (Inl (thrown e g), afterThrow e g)
           | None \<Rightarrow> (Inr (originalValues (clonedHeaders g)), g)))
   \<and> patched_Symbol_iterator = patched_entries
   \<and> (patched_next parseURL i g = (Inr (Some kv), g') \<longrightarrow>
        headerCheck parseURL (allowedHosts g) kv = None)
   \<and> (i < length (iterators g) \<and> iterators g ! i = kv # rest
        \<and> headerCheck parseURL (allowedHosts g) kv = Some e \<longrightarrow>
        fst (patched_next parseURL i g) = Inl (thrown e g))
   \<and> fst (forOf parseURL (fst (patched_entries g)) (snd (patched_entries g))) =
       (map_option (\<lambda>e. thrown e g) (firstFailure parseURL (allowedHosts g) (clonedHeaders g)),
        takeWhile (\<lambda>kv. headerCheck parseURL (allowedHosts g) kv = None) (clonedHeaders g))
   \<and> (firstFailure parseURL (allowedHosts g) (clonedHeaders g) = Some e \<longrightarrow>
        (\<exists>pre bad post. clonedHeaders g = pre @ bad # post
           \<and> takeWhile (\<lambda>kv. headerCheck parseURL (allowedHosts g) kv = None) (clonedHeaders g) = pre
           \<and> headerCheck parseURL (allowedHosts g) bad = Some e))
   \<and> (firstFailure parseURL (allowedHosts g) (clonedHeaders g) = None \<longrightarrow>
        takeWhile (\<lambda>kv. headerCheck parseURL (allowedHosts g) kv = None) (clonedHeaders g)
          = clonedHeaders g)"
proof -
  have 2: "patched_Symbol_iterator = patched_entries"
    by (simp add: patched_Symbol_iterator_def)
  have 3: "patched_next parseURL i g = (Inr (Some kv), g') \<longrightarrow>
        headerCheck parseURL (allowedHosts g) kv = None"
    using patched_next_yield by blast
  have 4: "i < length (iterators g) \<and> iterators g ! i = kv # rest
        \<and> headerCheck parseURL (allowedHosts g) kv = Some e \<longrightarrow>
        fst (patched_next parseURL i g) = Inl (thrown e g)"
    by (simp add: patched_next_step)
  have 6: "firstFailure parseURL (allowedHosts g) (clonedHeaders g) = Some e \<longrightarrow>
        (\<exists>pre bad post. clonedHeaders g = pre @ bad # post
           \<and> takeWhile (\<lambda>kv. headerCheck parseURL (allowedHosts g) kv = None) (clonedHeaders g) = pre
           \<and> headerCheck parseURL (allowedHosts g) bad = Some e)"
    using firstFailure_Some by blast
  have 7: "firstFailure parseURL (allowedHosts g) (clonedHeaders g) = None \<longrightarrow>
        takeWhile (\<lambda>kv. headerCheck parseURL (allowedHosts g) kv = None) (clonedHeaders g)
          = clonedHeaders g"
    using firstFailure_None by blast
  from patched_values_checks [of parseURL g] 2 3 4 forOf_entries [of parseURL g] 6 7
  show ?thesis by blast
qed

theorem guarded_enumeration_spec_witness:
  "fst (forOf exampleURL (fst (patched_entries mixedGuard)) (snd (patched_entries mixedGuard)))
     = (Some (0, Error ''Header \"host\" with value \"evil.com\" is not allowed.''),
        [(''accept'', ''application/json'')])
   \<and> fst (patched_values exampleURL mixedGuard)
     = Inl (0, Error ''Header \"host\" with value \"evil.com\" is not allowed.'')"
proof -
  have a: "firstFailure exampleURL (allowedHosts mixedGuard) (clonedHeaders mixedGuard)
      = Some (Error ''Header \"host\" with value \"evil.com\" is not allowed.'')"
    "takeWhile (\<lambda>kv. headerCheck exampleURL (allowedHosts mixedGuard) kv = None)
       (clonedHeaders mixedGuard) = [(''accept'', ''application/json'')]"
    "presentCheck exampleURL mixedGuard ''host''
      = Some (Error ''Header \"host\" with value \"evil.com\" is not allowed.'')"
    "thrown (Error ''Header \"host\" with value \"evil.com\" is not allowed.'') mixedGuard
      = (0, Error ''Header \"host\" with value \"evil.com\" is not allowed.'')"
    by code_simp+
  from guarded_enumeration_spec [of exampleURL mixedGuard] a show ?thesis by simp
qed

text \<open>
  Claim C6 as first stated has no pair after an invalid sensitive header ever yielded. The
  underlying iterator has moved on when the check throws: on the headers \<^verbatim>\<open>accept\<close>,
  \<^verbatim>\<open>host: evil.com\<close>, \<^verbatim>\<open>x-custom\<close> the second \<open>next()\<close> throws and the third, made by a caller
  that caught the error, returns the pair of \<^verbatim>\<open>x-custom\<close>.
\<close>

theorem next_after_throw_counterexample:
  "fst (patched_entries mixedGuard) = 0
   \<and> fst (patched_next exampleURL 0 (snd (patched_entries mixedGuard)))
      = Inr (Some (''accept'', ''application/json''))
   \<and> fst (patched_next exampleURL 0
        (snd (patched_next exampleURL 0 (snd (patched_entries mixedGuard)))))
      = Inl (0, Error ''Header \"host\" with value \"evil.com\" is not allowed.'')
   \<and> fst (patched_next exampleURL 0
        (snd (patched_next exampleURL 0
          (snd (patched_next exampleURL 0 (snd (patched_entries mixedGuard)))))))
      = Inr (Some (''x-custom'', ''1''))"
  by code_simp

section \<open>Only the first value of a header is read\<close>

lemma verifyHostAllowed_cong:
  "getFirstHeaderValue (Some (Str v1)) = getFirstHeaderValue (Some (Str v2)) \<Longrightarrow>
     verifyHostAllowed parseURL name v1 allowed = verifyHostAllowed parseURL name v2 allowed"
  by (simp add: verifyHostAllowed_def)

lemma verifyHostAllowed_empty_first:
  "getFirstHeaderValue (Some (Str raw)) = Some [] \<Longrightarrow>
     verifyHostAllowed parseURL name raw allowed = Inr ()"
  by (simp add: verifyHostAllowed_def)

lemma getFirstHeaderValue_empty: "getFirstHeaderValue (Some (Str [])) = Some []"
  by (simp add: getFirstHeaderValue_Str trim_def)

lemma validateHeader_cong:
  assumes "getFirstHeaderValue (Some (Str v1)) = getFirstHeaderValue (Some (Str v2))"
  shows "validateHeader parseURL name (Some v1) allowed g
           = validateHeader parseURL name (Some v2) allowed g"
proof -
  have w: "verifyHostAllowed parseURL name w allowed = Inr ()"
    if "v = []" "getFirstHeaderValue (Some (Str v)) = getFirstHeaderValue (Some (Str w))" for v w
  proof -
    from that have "getFirstHeaderValue (Some (Str w)) = Some []"
      by (simp add: getFirstHeaderValue_empty)
    then show ?thesis by (rule verifyHostAllowed_empty_first)
  qed
  from assms w [of v1 v2] w [of v2 v1] verifyHostAllowed_cong [OF assms, of parseURL name allowed]
  show ?thesis
    by (auto simp: validateHeader_def)
qed

lemma validateHeaders_cong:
  assumes "\<forall>name\<in>set [''host'', ''x-forwarded-host'', ''x-forwarded-port'', ''x-forwarded-proto''].
             firstOf (originalGet (req_headers r1) name) = firstOf (originalGet (req_headers r2) name)"
  shows "validateHeaders r1 = validateHeaders r2"
  using assms by (simp add: validateHeaders_steps headerRejected_def)

lemma takeWhile_comma:
  "CHR '','' \<notin> set a \<Longrightarrow> takeWhile (\<lambda>c. c \<noteq> CHR '','') (a @ '','' @ x) = a"
  by (induction a) auto

lemma first_token_prefix:
  "CHR '','' \<notin> set a \<Longrightarrow> getFirstHeaderValue (Some (Str (a @ '','' @ x))) = Some (trim a)"
  by (simp add: getFirstHeaderValue_Str takeWhile_comma del: append.simps)

text \<open>
  Claim C9. The checks see only the first value of a header. Two stored values with the same
  first value get the same outcome from the guard's check, and two requests whose four
  validated headers have the same first values get the same outcome from
  \<open>validateHeaders\<close>; what follows the first comma is not looked at. A stored value whose
  first value is empty passes the guard's check and every format test, and \<open>get\<close> returns
  it whole without an error.
\<close>

theorem first_token_only:
  "(getFirstHeaderValue (Some (Str v1)) = getFirstHeaderValue (Some (Str v2)) \<longrightarrow>
      verifyHostAllowed parseURL name v1 allowed = verifyHostAllowed parseURL name v2 allowed
      \<and> validateHeader parseURL name (Some v1) allowed g
          = validateHeader parseURL name (Some v2) allowed g)
   \<and> ((\<forall>n\<in>set [''host'', ''x-forwarded-host'', ''x-forwarded-port'', ''x-forwarded-proto''].
          firstOf (originalGet (req_headers r1) n) = firstOf (originalGet (req_headers r2) n)) \<longrightarrow>
      validateHeaders r1 = validateHeaders r2)
   \<and> (CHR '','' \<notin> set a \<longrightarrow>
      verifyHostAllowed parseURL name (a @ '','' @ x) allowed
        = verifyHostAllowed parseURL name (a @ '','' @ y) allowed)
   \<and> (getFirstHeaderValue (Some (Str raw)) = Some [] \<longrightarrow>
      verifyHostAllowed parseURL name raw allowed = Inr ()
      \<and> \<not> rejects regex (firstOf (Some raw))
      \<and> (originalGet (clonedHeaders g) name = Some raw \<longrightarrow>
           patched_get parseURL name g = (Inr (Some raw), g)))"
proof -
  have 1: "getFirstHeaderValue (Some (Str v1)) = getFirstHeaderValue (Some (Str v2)) \<longrightarrow>
      verifyHostAllowed parseURL name v1 allowed = verifyHostAllowed parseURL name v2 allowed
      \<and> validateHeader parseURL name (Some v1) allowed g
          = validateHeader parseURL name (Some v2) allowed g"
    using verifyHostAllowed_cong validateHeader_cong by blast
  have 2: "(\<forall>n\<in>set [''host'', ''x-forwarded-host'', ''x-forwarded-port'', ''x-forwarded-proto''].
          firstOf (originalGet (req_headers r1) n) = firstOf (originalGet (req_headers r2) n)) \<longrightarrow>
      validateHeaders r1 = validateHeaders r2"
    using validateHeaders_cong by blast
  have 3: "CHR '','' \<notin> set a \<longrightarrow>
      verifyHostAllowed parseURL name (a @ '','' @ x) allowed
        = verifyHostAllowed parseURL name (a @ '','' @ y) allowed"
  proof
    assume "CHR '','' \<notin> set a"
    with first_token_prefix [of a x] first_token_prefix [of a y]
    have "getFirstHeaderValue (Some (Str (a @ '','' @ x)))
        = getFirstHeaderValue (Some (Str (a @ '','' @ y)))"
      by simp
    then show "verifyHostAllowed parseURL name (a @ '','' @ x) allowed
        = verifyHostAllowed parseURL name (a @ '','' @ y) allowed"
      by (rule verifyHostAllowed_cong)
  qed
  have 4: "getFirstHeaderValue (Some (Str raw)) = Some [] \<longrightarrow>
      verifyHostAllowed parseURL name raw allowed = Inr ()
      \<and> \<not> rejects regex (firstOf (Some raw))
      \<and> (originalGet (clonedHeaders g) name = Some raw \<longrightarrow>
           patched_get parseURL name g = (Inr (Some raw), g))"
  proof
    assume f: "getFirstHeaderValue (Some (Str raw)) = Some []"
    then have a: "verifyHostAllowed parseURL name raw allowed = Inr ()"
      by (rule verifyHostAllowed_empty_first)
    from f have b: "\<not> rejects regex (firstOf (Some raw))"
      by (simp add: rejects_def firstOf_def)
    have c: "patched_get parseURL name g = (Inr (Some raw), g)"
      if o: "originalGet (clonedHeaders g) name = Some raw"
    proof (cases "sensitive name \<and> raw \<noteq> []")
      case True
      with o f show ?thesis
        by (simp add: patched_get_check verifyHostAllowed_empty_first)
    next
      case False
      with o have "\<not> truthy (originalGet (clonedHeaders g) name) \<or> \<not> sensitive name"
        by (auto simp: truthy_def)
      from patched_get_skip [OF this] o show ?thesis by simp
    qed
    from a b c show "verifyHostAllowed parseURL name raw allowed = Inr ()
      \<and> \<not> rejects regex (firstOf (Some raw))
      \<and> (originalGet (clonedHeaders g) name = Some raw \<longrightarrow>
           patched_get parseURL name g = (Inr (Some raw), g))" by blast
  qed
  from 1 2 3 4 show ?thesis by blast
qed

theorem first_token_only_witness:
  "verifyHostAllowed exampleURL ''host'' ''example.com, evil.com'' [''example.com''] = Inr ()
   \<and> verifyHostAllowed exampleURL ''host'' ''evil.com, example.com'' [''example.com'']
       = Inl (Error ''Header \"host\" with value \"evil.com\" is not allowed.'')
   \<and> validateHeaders (mkRequest ''http://example.com/'' [(''host'', ''example.com, bad/value'')])
       = Inr ()
   \<and> patched_get exampleURL ''host'' commaGuard = (Inr (Some '', evil.com''), commaGuard)"
proof -
  let ?r1 = "mkRequest ''http://example.com/'' [(''host'', ''example.com, bad/value'')]"
  let ?r2 = "mkRequest ''http://example.com/'' [(''host'', ''example.com'')]"
  have a: "getFirstHeaderValue (Some (Str ''example.com, evil.com''))
       = getFirstHeaderValue (Some (Str ''example.com''))"
    "verifyHostAllowed exampleURL ''host'' ''example.com'' [''example.com''] = Inr ()"
    by code_simp+
  have b: "CHR '','' \<notin> set ''evil.com''"
    "verifyHostAllowed exampleURL ''host'' (''evil.com'' @ '','' @ []) [''example.com'']
       = Inl (Error ''Header \"host\" with value \"evil.com\" is not allowed.'')"
    by code_simp+
  have c: "\<forall>n\<in>set [''host'', ''x-forwarded-host'', ''x-forwarded-port'', ''x-forwarded-proto''].
          firstOf (originalGet (req_headers ?r1) n) = firstOf (originalGet (req_headers ?r2) n)"
    "validateHeaders ?r2 = Inr ()"
    by code_simp+
  have d: "getFirstHeaderValue (Some (Str '', evil.com'')) = Some []"
    "originalGet (clonedHeaders commaGuard) ''host'' = Some '', evil.com''"
    by code_simp+
  from a first_token_only [of "''example.com, evil.com''" "''example.com''" exampleURL "''host''"
      "[''example.com'']"]
  have 1: "verifyHostAllowed exampleURL ''host'' ''example.com, evil.com'' [''example.com''] = Inr ()"
    by simp
  from b(1) first_token_only [of _ _ exampleURL "''host''" "[''example.com'']" _ _ _ "''evil.com''"
      "'' example.com''" "[]"]
  have "verifyHostAllowed exampleURL ''host'' (''evil.com'' @ '','' @ '' example.com'') [''example.com'']
       = verifyHostAllowed exampleURL ''host'' (''evil.com'' @ '','' @ []) [''example.com'']"
    by blast
  with b(2) have 2: "verifyHostAllowed exampleURL ''host'' ''evil.com, example.com'' [''example.com'']
       = Inl (Error ''Header \"host\" with value \"evil.com\" is not allowed.'')"
    by simp
  from c first_token_only [of _ _ _ _ _ _ ?r1 ?r2]
  have 3: "validateHeaders ?r1 = Inr ()"
    by simp
  from d first_token_only [of _ _ exampleURL "''host''" _ commaGuard _ _ _ _ _ "'', evil.com''"]
  have 4: "patched_get exampleURL ''host'' commaGuard = (Inr (Some '', evil.com''), commaGuard)"
    by simp
  from 1 2 3 4 show ?thesis by blast
qed

section \<open>The hostname the guard compares\<close>





end
